theory Spec2Isabelle
  imports Complex_Main
begin

section \<open>Python values\<close>

text \<open>
  A Python float (and an entry of a numpy float64 array) is a finite number, one of the
  two infinities, or NaN. Finite values are real numbers; the sign of zero is left out.
  The operations follow IEEE 754 as numpy applies it to arrays: no operation raises, a
  division by zero gives an infinity or NaN, and every comparison with NaN is false.
  Sums and differences are exact: the stages of \<open>build\<close> add only to zero.
\<close>

datatype pyfloat = NaN | NInf | Fin real | PInf

fun fl_lt :: "pyfloat \<Rightarrow> pyfloat \<Rightarrow> bool" where
  "fl_lt NaN _ = False"
| "fl_lt _ NaN = False"
| "fl_lt (Fin a) (Fin b) = (a < b)"
| "fl_lt NInf NInf = False"
| "fl_lt NInf _ = True"
| "fl_lt (Fin a) PInf = True"
| "fl_lt (Fin a) NInf = False"
| "fl_lt PInf _ = False"

definition fl_gt :: "pyfloat \<Rightarrow> pyfloat \<Rightarrow> bool" where
  "fl_gt a b = fl_lt b a"

fun fl_le :: "pyfloat \<Rightarrow> pyfloat \<Rightarrow> bool" where
  "fl_le NaN _ = False"
| "fl_le _ NaN = False"
| "fl_le a b = (a = b \<or> fl_lt a b)"

definition fl_ge :: "pyfloat \<Rightarrow> pyfloat \<Rightarrow> bool" where
  "fl_ge a b = fl_le b a"

fun fl_neg :: "pyfloat \<Rightarrow> pyfloat" where
  "fl_neg NaN = NaN"
| "fl_neg NInf = PInf"
| "fl_neg (Fin a) = Fin (- a)"
| "fl_neg PInf = NInf"

fun fl_add :: "pyfloat \<Rightarrow> pyfloat \<Rightarrow> pyfloat" where
  "fl_add NaN _ = NaN"
| "fl_add _ NaN = NaN"
| "fl_add (Fin a) (Fin b) = Fin (a + b)"
| "fl_add PInf NInf = NaN"
| "fl_add NInf PInf = NaN"
| "fl_add PInf _ = PInf"
| "fl_add NInf _ = NInf"
| "fl_add (Fin a) b = b"

definition fl_sub :: "pyfloat \<Rightarrow> pyfloat \<Rightarrow> pyfloat" where
  "fl_sub a b = fl_add a (fl_neg b)"

text \<open>The sign of a float: \<open>-1\<close>, \<open>0\<close> or \<open>1\<close>; NaN has none.\<close>

fun fl_sgn :: "pyfloat \<Rightarrow> int option" where
  "fl_sgn NaN = None"
| "fl_sgn NInf = Some (- 1)"
| "fl_sgn PInf = Some 1"
| "fl_sgn (Fin a) = Some (if a < 0 then - 1 else if a = 0 then 0 else 1)"

definition fl_inf :: "int \<Rightarrow> pyfloat" where
  "fl_inf s = (if s < 0 then NInf else if s = 0 then NaN else PInf)"

text \<open>
  A float multiplication or division computes the exact result and rounds it. The
  rounding takes a real number to the float that stands for it: a finite float, or an
  infinity when the number is out of range. It is a parameter of the two operations,
  and of everything that multiplies or divides.
\<close>

type_synonym rounding = "real \<Rightarrow> pyfloat"

fun fl_mul :: "rounding \<Rightarrow> pyfloat \<Rightarrow> pyfloat \<Rightarrow> pyfloat" where
  "fl_mul rnd (Fin a) (Fin b) = rnd (a * b)"
| "fl_mul rnd a b =
     (case (fl_sgn a, fl_sgn b) of
        (Some s, Some t) \<Rightarrow> fl_inf (s * t)
      | _ \<Rightarrow> NaN)"

fun fl_div :: "rounding \<Rightarrow> pyfloat \<Rightarrow> pyfloat \<Rightarrow> pyfloat" where
  "fl_div rnd NaN _ = NaN"
| "fl_div rnd _ NaN = NaN"
| "fl_div rnd (Fin a) (Fin b) =
     (if b = 0 then (if a < 0 then NInf else if a = 0 then NaN else PInf)
      else rnd (a / b))"
| "fl_div rnd (Fin a) _ = Fin 0"
| "fl_div rnd PInf (Fin b) = (if b < 0 then NInf else PInf)"
| "fl_div rnd NInf (Fin b) = (if b < 0 then PInf else NInf)"
| "fl_div rnd _ _ = NaN"

text \<open>The rounding that changes nothing: exact arithmetic on the finite values.\<close>

definition exact :: rounding where
  "exact x = Fin x"

definition isfinite :: "pyfloat \<Rightarrow> bool" where
  "isfinite a = (case a of Fin _ \<Rightarrow> True | _ \<Rightarrow> False)"

text \<open>Python's built-in \<open>min\<close> and \<open>max\<close> of two arguments keep the first unless
  the second compares strictly smaller (larger).\<close>

definition py_min :: "pyfloat \<Rightarrow> pyfloat \<Rightarrow> pyfloat" where
  "py_min a b = (if fl_lt b a then b else a)"

definition py_max :: "pyfloat \<Rightarrow> pyfloat \<Rightarrow> pyfloat" where
  "py_max a b = (if fl_gt b a then b else a)"

datatype exn =
    AssertionError string
  | AttributeError string
  | TypeError string
  | ValueError string
  | IOError string

text \<open>\<open>max(t)\<close> and \<open>min(t)\<close> of a tuple; both raise ValueError on an empty one.\<close>

definition max_seq :: "pyfloat list \<Rightarrow> exn + pyfloat" where
  "max_seq t = (case t of [] \<Rightarrow> Inl (ValueError ''max() arg is an empty sequence'')
                | x # xs \<Rightarrow> Inr (foldl py_max x xs))"

definition min_seq :: "pyfloat list \<Rightarrow> exn + pyfloat" where
  "min_seq t = (case t of [] \<Rightarrow> Inl (ValueError ''min() arg is an empty sequence'')
                | x # xs \<Rightarrow> Inr (foldl py_min x xs))"

text \<open>The arguments of the constructor that the setters look at by type.\<close>

datatype pyval = PyStr string | PyFloat pyfloat | PyNone

section \<open>numpy arrays\<close>

text \<open>A two-dimensional array is the list of its rows; \<open>a ! i ! j\<close> is \<open>a[i][j]\<close>.\<close>

type_synonym 'a ndarray = "'a list list"

definition np_full :: "nat \<Rightarrow> nat \<Rightarrow> 'a \<Rightarrow> 'a ndarray" where
  "np_full nz nx v = replicate nz (replicate nx v)"

definition np_map :: "('a \<Rightarrow> 'b) \<Rightarrow> 'a ndarray \<Rightarrow> 'b ndarray" where
  "np_map f a = map (map f) a"

definition np_map2 :: "('a \<Rightarrow> 'b \<Rightarrow> 'c) \<Rightarrow> 'a ndarray \<Rightarrow> 'b ndarray \<Rightarrow> 'c ndarray" where
  "np_map2 f a b = map2 (map2 f) a b"

definition np_all :: "('a \<Rightarrow> bool) \<Rightarrow> 'a ndarray \<Rightarrow> bool" where
  "np_all p a = list_all (list_all p) a"

definition np_any :: "('a \<Rightarrow> bool) \<Rightarrow> 'a ndarray \<Rightarrow> bool" where
  "np_any p a = list_ex (list_ex p) a"

text \<open>\<open>a\<close> has \<open>nz\<close> rows of \<open>nx\<close> entries each.\<close>

definition has_shape :: "'a ndarray \<Rightarrow> nat \<Rightarrow> nat \<Rightarrow> bool" where
  "has_shape a nz nx = (length a = nz \<and> list_all (\<lambda>r. length r = nx) a)"

text \<open>\<open>np.linspace(start, stop, num)\<close>: \<open>num\<close> evenly spaced samples, the last one
  set to \<open>stop\<close>.\<close>

definition linspace :: "rounding \<Rightarrow> pyfloat \<Rightarrow> pyfloat \<Rightarrow> nat \<Rightarrow> pyfloat list" where
  "linspace rnd start stop num =
     (if num = 0 then []
      else if num = 1 then [start]
      else (let step = fl_div rnd (fl_sub stop start) (Fin (real (num - 1)))
            in map (\<lambda>k. fl_add (fl_mul rnd (Fin (real k)) step) start) [0..<num - 1]
               @ [stop]))"

text \<open>\<open>np.all(np.diff(p) > 0.)\<close>: every point of \<open>p\<close> lies above the one before.\<close>

fun strictly_ascending :: "pyfloat list \<Rightarrow> bool" where
  "strictly_ascending (x # y # ys) =
     (fl_gt (fl_sub y x) (Fin 0) \<and> strictly_ascending (y # ys))"
| "strictly_ascending ps = True"

section \<open>The class MeshSizeFunction\<close>

subsection \<open>Names of the class body\<close>

text \<open>
  Inside a class body Python rewrites every identifier that starts with two underscores
  and does not end with two: \<open>__x\<close> becomes \<open>_Class__x\<close>. This holds for the names
  being defined and for the attribute names in \<open>self.__x\<close> alike.
\<close>

definition is_private :: "string \<Rightarrow> bool" where
  "is_private n = (take 2 n = ''__'' \<and> take 2 (rev n) \<noteq> ''__'')"

definition mangle :: "string \<Rightarrow> string \<Rightarrow> string" where
  "mangle cls n = (if is_private n then ''_'' @ cls @ n else n)"

text \<open>The names the class body of MeshSizeFunction defines, as written in the source:
  the constructor, the fourteen properties and the methods.\<close>

definition class_body_names :: "string list" where
  "class_body_names =
     [''__init__'', ''fh'', ''fd'', ''bbox'', ''hmin'', ''vp'', ''nz'', ''nx'', ''segy'',
      ''wl'', ''freq'', ''hmax'', ''dt'', ''cr_max'', ''grade'',
      ''build'', ''plot'', ''GetDomainMatrices'',
      ''hj'', ''__drectangle'', ''__ReadVelocityModel'',
      ''__CreateDomainVectors'', ''__CreateDomainMatrices'']"

definition class_dict :: "string list" where
  "class_dict = map (mangle ''MeshSizeFunction'') class_body_names"

text \<open>The instance attributes are the private slots the property setters write.\<close>

definition instance_dict :: "string list" where
  "instance_dict = map (mangle ''MeshSizeFunction'')
     [''__fh'', ''__fd'', ''__bbox'', ''__hmin'', ''__vp'', ''__nz'', ''__nx'', ''__segy'',
      ''__wl'', ''__freq'', ''__hmax'', ''__dt'', ''__cr_max'', ''__grade'']"

text \<open>\<open>self.n\<close> written inside the class body: the name is mangled, then looked up on
  the instance and on the class.\<close>

definition getattr_self :: "string \<Rightarrow> exn + string" where
  "getattr_self n =
     (let m = mangle ''MeshSizeFunction'' n
      in if m \<in> set instance_dict \<or> m \<in> set class_dict then Inr m
         else Inl (AttributeError m))"

subsection \<open>The object\<close>

text \<open>
  The interpolant keeps the two coordinate vectors and the field it was built from; the
  distance closure keeps the bounding box it captured. \<open>None\<close> in \<open>vp\<close>, \<open>nz\<close>, \<open>nx\<close>,
  \<open>fh\<close> and \<open>fd\<close> is Python's \<open>None\<close> (for \<open>vp\<close>, which the constructor does not set,
  also the absent attribute).
\<close>

datatype interpolant = RegularGridInterpolator "pyfloat list" "pyfloat list" "pyfloat ndarray"

datatype distance_closure = Drectangle_closure "pyfloat list"

record MeshSizeFunction =
  bbox :: "pyfloat list"
  hmin :: pyfloat
  segy :: string
  wl :: pyfloat
  freq :: pyfloat
  hmax :: pyfloat
  dt :: pyfloat
  cr_max :: pyfloat
  grade :: pyfloat
  vp :: "pyfloat ndarray option"
  nz :: "nat option"
  nx :: "nat option"
  fh :: "interpolant option"
  fd :: "distance_closure option"

subsection \<open>The constructor and its validating setters\<close>

definition set_bbox :: "pyfloat list \<Rightarrow> exn + pyfloat list" where
  "set_bbox v = (if length v \<ge> 4 \<and> length v \<le> 6 then Inr v
                 else Inl (AssertionError ''bbox has wrong number of args''))"

definition set_hmin :: "pyfloat \<Rightarrow> exn + pyfloat" where
  "set_hmin v = (if fl_gt v (Fin 0) then Inr v
                 else Inl (AssertionError ''hmin must be non-zero''))"

definition set_segy :: "pyval \<Rightarrow> exn + string" where
  "set_segy v = (case v of PyStr s \<Rightarrow> Inr s
                 | _ \<Rightarrow> Inl (AssertionError ''segy must be a filename''))"

definition init ::
  "pyfloat list \<Rightarrow> pyfloat \<Rightarrow> pyval \<Rightarrow> pyfloat \<Rightarrow> pyfloat \<Rightarrow> pyfloat \<Rightarrow> pyfloat \<Rightarrow> pyfloat
     \<Rightarrow> pyfloat \<Rightarrow> exn + MeshSizeFunction" where
  "init a_bbox a_hmin a_segy a_wl a_freq a_hmax a_dt a_cr_max a_grade =
     (case set_bbox a_bbox of Inl e \<Rightarrow> Inl e | Inr b \<Rightarrow>
       (case set_hmin a_hmin of Inl e \<Rightarrow> Inl e | Inr h \<Rightarrow>
         (case set_segy a_segy of Inl e \<Rightarrow> Inl e | Inr s \<Rightarrow>
            Inr \<lparr> bbox = b, hmin = h, segy = s, wl = a_wl, freq = a_freq, hmax = a_hmax,
                  dt = a_dt, cr_max = a_cr_max, grade = a_grade,
                  vp = None, nz = None, nx = None, fh = None, fd = None \<rparr>)))"

text \<open>The defaults of the keyword arguments: \<open>wl=0.0, freq=5.0, hmax=np.inf, dt=0.0,
  cr_max=0.2, grade=0.0\<close>.\<close>

definition init_default :: "pyfloat list \<Rightarrow> pyfloat \<Rightarrow> pyval \<Rightarrow> exn + MeshSizeFunction" where
  "init_default a_bbox a_hmin a_segy =
     init a_bbox a_hmin a_segy (Fin 0) (Fin 5) PInf (Fin 0) (Fin (2 / 10)) (Fin 0)"

definition is_str :: "pyval \<Rightarrow> bool" where
  "is_str v = (case v of PyStr _ \<Rightarrow> True | _ \<Rightarrow> False)"

definition is_assertion :: "exn + 'a \<Rightarrow> bool" where
  "is_assertion r = (case r of Inl (AssertionError _) \<Rightarrow> True | _ \<Rightarrow> False)"

subsection \<open>Reading the velocity model\<close>

text \<open>
  What segyio shows of an opened file: the sample axis and the traces. The file system
  maps a file name to the file, if it can be opened.
\<close>

datatype segyfile = SegyFile (samples: "pyfloat list") (trace: "pyfloat list list")

type_synonym filesystem = "string \<Rightarrow> segyfile option"

text \<open>\<open>vp[:, index] = trace\<close>: the trace fills a column of \<open>nz\<close> entries; a trace of
  one sample is broadcast, any other length is a shape error.\<close>

definition assign_column :: "nat \<Rightarrow> pyfloat list \<Rightarrow> exn + pyfloat list" where
  "assign_column n tr =
     (if length tr = n then Inr tr
      else if length tr = 1 then Inr (replicate n (hd tr))
      else Inl (ValueError ''could not broadcast input array''))"

fun fill_columns :: "nat \<Rightarrow> pyfloat list list \<Rightarrow> exn + pyfloat list list" where
  "fill_columns n [] = Inr []"
| "fill_columns n (tr # trs) =
     (case assign_column n tr of Inl e \<Rightarrow> Inl e
      | Inr c \<Rightarrow> (case fill_columns n trs of Inl e \<Rightarrow> Inl e | Inr cs \<Rightarrow> Inr (c # cs)))"

definition flipud :: "'a ndarray \<Rightarrow> 'a ndarray" where
  "flipud a = rev a"

definition ReadVelocityModel ::
  "filesystem \<Rightarrow> MeshSizeFunction \<Rightarrow> exn + (pyfloat ndarray \<times> nat \<times> nat)" where
  "ReadVelocityModel fs self =
     (let fname = segy self in
      case fs fname of None \<Rightarrow> Inl (IOError fname)
      | Some f \<Rightarrow>
          (let n_z = length (samples f); n_x = length (trace f) in
           case fill_columns n_z (trace f) of Inl e \<Rightarrow> Inl e
           | Inr cols \<Rightarrow>
               Inr (flipud (map (\<lambda>i. map (\<lambda>c. c ! i) cols) [0..<n_z]), n_z, n_x)))"

definition CreateDomainVectors ::
  "rounding \<Rightarrow> MeshSizeFunction \<Rightarrow> exn + (pyfloat list \<times> pyfloat list)" where
  "CreateDomainVectors rnd self =
     (case nx self of None \<Rightarrow> Inl (TypeError ''linspace: num is None'') | Some n_x \<Rightarrow>
       (case nz self of None \<Rightarrow> Inl (TypeError ''linspace: num is None'') | Some n_z \<Rightarrow>
         (case max_seq (bbox self) of Inl e \<Rightarrow> Inl e | Inr width \<Rightarrow>
           (case min_seq (bbox self) of Inl e \<Rightarrow> Inl e | Inr depth \<Rightarrow>
              Inr (linspace rnd depth (Fin 0) n_z, linspace rnd (Fin 0) width n_x)))))"

subsection \<open>The stages of build\<close>

text \<open>\<open>np.where(cond, x, y)\<close> with a scalar \<open>x\<close>, and with an array \<open>x\<close>.\<close>

definition np_where_scalar :: "bool ndarray \<Rightarrow> 'a \<Rightarrow> 'a ndarray \<Rightarrow> 'a ndarray" where
  "np_where_scalar c x y = np_map2 (\<lambda>b v. if b then x else v) c y"

definition np_where :: "bool ndarray \<Rightarrow> 'a ndarray \<Rightarrow> 'a ndarray \<Rightarrow> 'a ndarray" where
  "np_where c x y = np_map2 (\<lambda>b (u, v). if b then u else v) c (np_map2 Pair x y)"

text \<open>Lines 245 to 252: the field starts as \<open>hmin\<close> everywhere and, when \<open>wl > 0\<close>, is
  replaced by the wavelength estimate.\<close>

definition wavelength_stage ::
  "rounding \<Rightarrow> pyfloat ndarray \<Rightarrow> nat \<Rightarrow> nat \<Rightarrow> pyfloat \<Rightarrow> pyfloat \<Rightarrow> pyfloat
     \<Rightarrow> pyfloat ndarray" where
  "wavelength_stage rnd v n_z n_x h_min w f =
     (let hh_m = np_map (\<lambda>z. fl_add z h_min) (np_full n_z n_x (Fin 0))
      in if fl_gt w (Fin 0) then np_map (\<lambda>u. fl_div rnd u (fl_mul rnd f w)) v else hh_m)"

text \<open>Lines 254 to 257: enforce the minimum and, when \<open>hmax < np.inf\<close>, the maximum.\<close>

definition clamp_stage :: "pyfloat \<Rightarrow> pyfloat \<Rightarrow> pyfloat ndarray \<Rightarrow> pyfloat ndarray" where
  "clamp_stage h_min h_max hh_m =
     (let hh_1 = np_where_scalar (np_map (\<lambda>h. fl_lt h h_min) hh_m) h_min hh_m
      in if fl_lt h_max PInf
         then np_where_scalar (np_map (\<lambda>h. fl_gt h h_max) hh_1) h_max hh_1
         else hh_1)"

text \<open>Lines 263 to 267: the Courant numbers of the field, the sizes that meet the
  limit, and the choice between the two.\<close>

definition cr_old ::
  "rounding \<Rightarrow> pyfloat ndarray \<Rightarrow> pyfloat \<Rightarrow> pyfloat ndarray \<Rightarrow> pyfloat ndarray" where
  "cr_old rnd v d hh_m = np_map2 (fl_div rnd) (np_map (\<lambda>u. fl_mul rnd u d) v) hh_m"

definition dxn ::
  "rounding \<Rightarrow> pyfloat ndarray \<Rightarrow> pyfloat \<Rightarrow> pyfloat \<Rightarrow> pyfloat ndarray" where
  "dxn rnd v d c = np_map (\<lambda>u. fl_div rnd u c) (np_map (\<lambda>u. fl_mul rnd u d) v)"

definition cfl_stage ::
  "rounding \<Rightarrow> pyfloat ndarray \<Rightarrow> pyfloat \<Rightarrow> pyfloat \<Rightarrow> pyfloat ndarray \<Rightarrow> pyfloat ndarray"
  where
  "cfl_stage rnd v d c hh_m =
     (if fl_gt d (Fin 0)
      then np_where (np_map (\<lambda>r. fl_gt r c) (cr_old rnd v d hh_m)) (dxn rnd v d c) hh_m
      else hh_m)"

subsection \<open>build\<close>

text \<open>
  A call of a method ends by raising or by returning; either way the receiver is left in
  some state, which the outcome carries. \<open>Returned s\<close> is \<open>return self\<close> with the
  receiver in state \<open>s\<close>.
\<close>

datatype outcome = Raised exn MeshSizeFunction | Returned MeshSizeFunction

text \<open>
  The constructor \<open>RegularGridInterpolator((z_vec, x_vec), hh_m, bounds_error=False)\<close>
  of line 271 checks each axis in turn and raises ValueError for one whose points are
  not strictly ascending. (Later releases of scipy also accept a strictly descending
  axis; no property below depends on what happens to such an axis.) The axes have as
  many points as the field has rows and columns by construction, so its check of the
  lengths is left out.
\<close>

definition make_interpolator ::
  "pyfloat list \<Rightarrow> pyfloat list \<Rightarrow> pyfloat ndarray \<Rightarrow> exn + interpolant" where
  "make_interpolator z_vec x_vec hh_m =
     (if \<not> strictly_ascending z_vec
      then Inl (ValueError ''The points in dimension 0 must be strictly ascending'')
      else if \<not> strictly_ascending x_vec
      then Inl (ValueError ''The points in dimension 1 must be strictly ascending'')
      else Inr (RegularGridInterpolator z_vec x_vec hh_m))"

text \<open>
  Lines 258 to 276 of \<open>build\<close>: what it does with the field \<open>hh_1\<close> that the sizing
  stages leave. The gradation stage evaluates \<open>self.__hj\<close> before the arguments of the
  call. Were the name found, it would be the class's \<open>hj(fun, elen, grade, imax)\<close>,
  which has no \<open>self\<close> parameter and is handed five arguments by the bound call.
\<close>

definition build_tail ::
  "rounding \<Rightarrow> MeshSizeFunction \<Rightarrow> pyfloat list \<Rightarrow> pyfloat ndarray \<Rightarrow> pyfloat ndarray
     \<Rightarrow> outcome" where
  "build_tail rnd self1 b v hh_1 =
     (if fl_gt (grade self1) (Fin 0)
      then (case getattr_self ''__hj'' of
              Inl e \<Rightarrow> Raised e self1
            | Inr m \<Rightarrow> Raised (TypeError ''hj() takes 4 positional arguments'') self1)
      else
       (let hh_m = cfl_stage rnd v (dt self1) (cr_max self1) hh_1 in
        (case CreateDomainVectors rnd self1 of Inl e \<Rightarrow> Raised e self1
         | Inr (z_vec, x_vec) \<Rightarrow>
            (if \<not> np_all (\<lambda>h. fl_gt h (Fin 0)) hh_m
             then Raised (AssertionError
                            ''edge_size_function must be strictly positive.'') self1
             else (case make_interpolator z_vec x_vec hh_m of
                     Inl e \<Rightarrow> Raised e self1
                   | Inr interpolant \<Rightarrow>
                       Returned (self1\<lparr>fh := Some interpolant,
                                        fd := Some (Drectangle_closure b)\<rparr>))))))"

text \<open>Lines 227 to 257 of \<open>build\<close>, followed by the rest; the rounding of the
  products and quotients is the first argument.\<close>

definition build_r :: "rounding \<Rightarrow> filesystem \<Rightarrow> MeshSizeFunction \<Rightarrow> outcome" where
  "build_r rnd fs self =
     (let b = bbox self in
      (case max_seq b of Inl e \<Rightarrow> Raised e self | Inr width \<Rightarrow>
       (case ReadVelocityModel fs self of Inl e \<Rightarrow> Raised e self | Inr (v, n_z, n_x) \<Rightarrow>
        (let self1 = self\<lparr>vp := Some v, nz := Some n_z, nx := Some n_x\<rparr>;
             hh_0 = wavelength_stage rnd v n_z n_x (hmin self1) (wl self1) (freq self1);
             hh_1 = clamp_stage (hmin self1) (hmax self1) hh_0
         in build_tail rnd self1 b v hh_1))))"

text \<open>\<open>build\<close> in exact arithmetic.\<close>

abbreviation build :: "filesystem \<Rightarrow> MeshSizeFunction \<Rightarrow> outcome" where
  "build \<equiv> build_r exact"

text \<open>The field that \<open>build\<close> hands to the interpolant, read back from \<open>fh\<close>.\<close>

definition field_of :: "MeshSizeFunction \<Rightarrow> pyfloat ndarray option" where
  "field_of self = (case fh self of None \<Rightarrow> None
                    | Some (RegularGridInterpolator z x h) \<Rightarrow> Some h)"

text \<open>A call \<open>obj.build()\<close> on a store of objects: the receiver is updated in place and
  the reference returned is the receiver's.\<close>

type_synonym ref = nat

type_synonym heap = "ref \<Rightarrow> MeshSizeFunction option"

definition call_build :: "filesystem \<Rightarrow> ref \<Rightarrow> heap \<Rightarrow> (exn + ref) \<times> heap" where
  "call_build fs r H =
     (case H r of None \<Rightarrow> (Inl (AttributeError ''build''), H)
      | Some self \<Rightarrow>
          (case build fs self of
             Raised e s \<Rightarrow> (Inl e, H(r \<mapsto> s))
           | Returned s \<Rightarrow> (Inr r, H(r \<mapsto> s))))"

subsection \<open>The signed distance function\<close>

text \<open>
  The method \<open>__drectangle(p, x1, x2, y1, y2)\<close> at one point \<open>p = (p0, p1)\<close>, and the
  closure \<open>lambda p: self.drectangle(p, _bbox[0], _bbox[1], _bbox[2], _bbox[3])\<close> that
  \<open>build\<close> stores in \<open>fd\<close>. The closure looks \<open>drectangle\<close> up on the receiver first;
  a bound call would hand the five-parameter function six arguments.
\<close>

definition drectangle ::
  "pyfloat \<times> pyfloat \<Rightarrow> pyfloat \<Rightarrow> pyfloat \<Rightarrow> pyfloat \<Rightarrow> pyfloat \<Rightarrow> pyfloat" where
  "drectangle p x1 x2 y1 y2 =
     fl_neg (py_min (py_min (py_min (fl_add (fl_neg y1) (snd p)) (fl_sub y2 (snd p)))
                            (fl_add (fl_neg x1) (fst p)))
                    (fl_sub x2 (fst p)))"

definition call_fd :: "MeshSizeFunction \<Rightarrow> pyfloat \<times> pyfloat \<Rightarrow> exn + pyfloat" where
  "call_fd self p =
     (case fd self of
        None \<Rightarrow> Inl (TypeError ''NoneType object is not callable'')
      | Some (Drectangle_closure b) \<Rightarrow>
          (case getattr_self ''drectangle'' of
             Inl e \<Rightarrow> Inl e
           | Inr m \<Rightarrow> Inl (TypeError ''__drectangle() takes 5 positional arguments'')))"

section \<open>The gradient limiter\<close>

subsection \<open>The kernel\<close>

text \<open>
  Modelled from the spec: \<open>FastHJ.limgrad\<close>, the compiled gradient-limiting kernel that
  \<open>hj\<close> calls; only the call is in the sources. The spec describes it as passes over
  the grid, repeated up to \<open>maxIterations\<close> times. For each cell and for each of its
  4-neighbours (up, down, left, right; edge cells use only in-bounds neighbours) the
  neighbour is clamped, \<open>h[neighbor] = min(h[neighbor], h[cell] + g * \<Delta>)\<close>. All four
  axis directions are swept in each pass: forward rows, backward rows, forward columns,
  backward columns. The passes end early when one of them changes nothing, and when the
  cap is reached the field is returned as it stands. The updates are made in place. The
  values of the field are taken to be finite and are modelled as reals.

  The kernel receives the field as a flat list in column-major order, with the
  dimensions \<open>[nz, nx, 1]\<close>: cell \<open>(i, j)\<close> is at position \<open>i + nz * j\<close>.
\<close>

definition idx :: "nat \<Rightarrow> nat \<times> nat \<Rightarrow> nat" where
  "idx n_z c = fst c + n_z * snd c"

definition cells :: "nat \<Rightarrow> nat \<Rightarrow> (nat \<times> nat) list" where
  "cells n_z n_x = concat (map (\<lambda>j. map (\<lambda>i. (i, j)) [0..<n_z]) [0..<n_x])"

definition neighbours :: "nat \<Rightarrow> nat \<Rightarrow> nat \<times> nat \<Rightarrow> (nat \<times> nat) list" where
  "neighbours n_z n_x c =
     (case c of (i, j) \<Rightarrow>
        (if 0 < i then [(i - 1, j)] else []) @
        (if i + 1 < n_z then [(i + 1, j)] else []) @
        (if 0 < j then [(i, j - 1)] else []) @
        (if j + 1 < n_x then [(i, j + 1)] else []))"

text \<open>One clamp: the pair is (position of the cell, position of the neighbour).\<close>

definition relax :: "real \<Rightarrow> real list \<Rightarrow> nat \<times> nat \<Rightarrow> real list" where
  "relax d h e = (case e of (c, n) \<Rightarrow> h[n := min (h ! n) (h ! c + d)])"

text \<open>The clamps of one sweep that visits the positions \<open>ps\<close> in order: each visited
  cell clamps its neighbours.\<close>

definition visit :: "nat \<Rightarrow> nat \<Rightarrow> nat list \<Rightarrow> (nat \<times> nat) list" where
  "visit n_z n_x ps =
     concat (map (\<lambda>x. map (\<lambda>n. (x, idx n_z n)) (neighbours n_z n_x (x mod n_z, x div n_z)))
                 ps)"

text \<open>The positions of the cells row after row, and column after column (the order of
  the flat list).\<close>

definition by_rows :: "nat \<Rightarrow> nat \<Rightarrow> nat list" where
  "by_rows n_z n_x = concat (map (\<lambda>i. map (\<lambda>j. idx n_z (i, j)) [0..<n_x]) [0..<n_z])"

definition by_columns :: "nat \<Rightarrow> nat \<Rightarrow> nat list" where
  "by_columns n_z n_x = [0..<n_z * n_x]"

text \<open>The clamps of one pass, in order: forward rows, backward rows, forward columns,
  backward columns.\<close>

definition schedule :: "nat \<Rightarrow> nat \<Rightarrow> (nat \<times> nat) list" where
  "schedule n_z n_x =
     visit n_z n_x (by_rows n_z n_x) @ visit n_z n_x (rev (by_rows n_z n_x)) @
     visit n_z n_x (by_columns n_z n_x) @ visit n_z n_x (rev (by_columns n_z n_x))"

definition sweep :: "nat \<Rightarrow> nat \<Rightarrow> real \<Rightarrow> real list \<Rightarrow> real list" where
  "sweep n_z n_x d h = foldl (relax d) h (schedule n_z n_x)"

text \<open>Up to \<open>n\<close> passes of \<open>f\<close>, stopping at the first pass that changes nothing.\<close>

fun iterate :: "nat \<Rightarrow> (real list \<Rightarrow> real list) \<Rightarrow> real list \<Rightarrow> real list" where
  "iterate 0 f h = h"
| "iterate (Suc n) f h = (let h' = f h in if h' = h then h else iterate n f h')"

text \<open>Modelled from the spec: \<open>FastHJ.limgrad(dims, elen, dfdx, imax, ffun)\<close>, which is
  missing from the sources. It runs the passes with the step \<open>dfdx * elen\<close>, the growth
  rate times the grid spacing, on the first two dimensions.\<close>

definition limgrad ::
  "nat \<times> nat \<times> nat \<Rightarrow> real \<Rightarrow> real \<Rightarrow> nat \<Rightarrow> real list \<Rightarrow> real list" where
  "limgrad dims elen dfdx imax ffun =
     (case dims of (n_z, n_x, n_y) \<Rightarrow> iterate imax (sweep n_z n_x (dfdx * elen)) ffun)"

subsection \<open>The limit of the sweep\<close>

text \<open>The number of grid steps between two cells, and the lower envelope of the cones
  of slope \<open>d\<close> per step that stand on the cells of \<open>h\<close>.\<close>

definition manhattan :: "nat \<times> nat \<Rightarrow> nat \<times> nat \<Rightarrow> nat" where
  "manhattan c c' = (fst c - fst c') + (fst c' - fst c) + ((snd c - snd c') + (snd c' - snd c))"

definition envelope :: "nat \<Rightarrow> nat \<Rightarrow> real \<Rightarrow> real list \<Rightarrow> nat \<times> nat \<Rightarrow> real" where
  "envelope n_z n_x d h c =
     Min ((\<lambda>c'. h ! idx n_z c' + d * real (manhattan c c')) ` set (cells n_z n_x))"

subsection \<open>The wrapper hj\<close>

text \<open>The function \<open>hj(fun, elen, grade, imax)\<close> of \<open>gradient_limiter.py\<close> flattens
  the field, calls the kernel and shapes the result back.\<close>

text \<open>\<open>np.shape\<close> of a two-dimensional array, \<open>flatten("F")\<close> and
  \<open>np.reshape(..., "F")\<close>: column-major order, the first index running fastest.\<close>

definition shape :: "'a ndarray \<Rightarrow> nat \<times> nat" where
  "shape a = (length a, (case a of [] \<Rightarrow> 0 | r # rs \<Rightarrow> length r))"

definition flatten_F :: "'a ndarray \<Rightarrow> 'a list" where
  "flatten_F a =
     (case shape a of (n_z, n_x) \<Rightarrow>
        concat (map (\<lambda>j. map (\<lambda>i. a ! i ! j) [0..<n_z]) [0..<n_x]))"

definition reshape_F :: "'a list \<Rightarrow> nat \<times> nat \<Rightarrow> 'a ndarray" where
  "reshape_F xs s =
     (case s of (n_z, n_x) \<Rightarrow> map (\<lambda>i. map (\<lambda>j. xs ! (i + n_z * j)) [0..<n_x]) [0..<n_z])"

definition hj :: "real ndarray \<Rightarrow> real \<Rightarrow> real \<Rightarrow> nat \<Rightarrow> real ndarray" where
  "hj fun elen grade' imax =
     (case shape fun of (n_z, n_x) \<Rightarrow>
        (let ffun = flatten_F fun;
             tmp = limgrad (n_z, n_x, 1) elen grade' imax ffun
         in reshape_F tmp (n_z, n_x)))"

subsection \<open>Fields compared cell by cell\<close>



section \<open>Notions used to state the properties\<close>

text \<open>The two-sided clamp: raise to the floor first, then lower to the ceiling.\<close>

definition clamp :: "pyfloat \<Rightarrow> pyfloat \<Rightarrow> pyfloat \<Rightarrow> pyfloat" where
  "clamp x lo hi = (let y = (if fl_lt x lo then lo else x) in if fl_gt y hi then hi else y)"

text \<open>The raw size of a cell of velocity \<open>u\<close>.\<close>

definition raw_size :: "rounding \<Rightarrow> MeshSizeFunction \<Rightarrow> pyfloat \<Rightarrow> pyfloat" where
  "raw_size rnd self u =
     (if fl_gt (wl self) (Fin 0) then fl_div rnd u (fl_mul rnd (freq self) (wl self))
      else hmin self)"

text \<open>The field of \<open>build\<close> before the gradation stage and after the CFL stage.\<close>

definition pre_gradation_field ::
  "rounding \<Rightarrow> MeshSizeFunction \<Rightarrow> pyfloat ndarray \<Rightarrow> nat \<Rightarrow> nat \<Rightarrow> pyfloat ndarray" where
  "pre_gradation_field rnd self v n_z n_x =
     clamp_stage (hmin self) (hmax self)
       (wavelength_stage rnd v n_z n_x (hmin self) (wl self) (freq self))"

definition final_field ::
  "rounding \<Rightarrow> MeshSizeFunction \<Rightarrow> pyfloat ndarray \<Rightarrow> nat \<Rightarrow> nat \<Rightarrow> pyfloat ndarray" where
  "final_field rnd self v n_z n_x =
     cfl_stage rnd v (dt self) (cr_max self) (pre_gradation_field rnd self v n_z n_x)"

text \<open>The CFL stage replaces cell \<open>(i, j)\<close> of the field \<open>a\<close>.\<close>

definition cfl_triggered ::
  "rounding \<Rightarrow> pyfloat ndarray \<Rightarrow> pyfloat \<Rightarrow> pyfloat \<Rightarrow> pyfloat ndarray \<Rightarrow> nat \<Rightarrow> nat
     \<Rightarrow> bool" where
  "cfl_triggered rnd v d c a i j = (fl_gt d (Fin 0) \<and> fl_gt (cr_old rnd v d a ! i ! j) c)"

text \<open>
  A rounding is monotone: a larger number is never rounded below a smaller one. This
  holds of rounding to nearest, with overflow to the infinities, and it implies that no
  number is rounded to NaN. A rounding is accurate to \<open>eps\<close> at \<open>q\<close> when it gives a
  finite value within the relative error \<open>eps\<close>.
\<close>

definition is_rounding :: "rounding \<Rightarrow> bool" where
  "is_rounding rnd = (\<forall>x y. x \<le> y \<longrightarrow> fl_le (rnd x) (rnd y))"

definition accurate :: "rounding \<Rightarrow> real \<Rightarrow> real \<Rightarrow> bool" where
  "accurate rnd eps q = (case rnd q of Fin r \<Rightarrow> \<bar>r - q\<bar> \<le> eps * \<bar>q\<bar> | _ \<Rightarrow> False)"

text \<open>Rounding to the nearest whole number, an example of a coarse rounding.\<close>

definition to_nearest_integer :: rounding where
  "to_nearest_integer x = Fin (of_int (round x))"

text \<open>The receiver once the velocity model is stored in it.\<close>

definition loaded ::
  "MeshSizeFunction \<Rightarrow> pyfloat ndarray \<Rightarrow> nat \<Rightarrow> nat \<Rightarrow> MeshSizeFunction" where
  "loaded self v n m = self\<lparr>vp := Some v, nz := Some n, nx := Some m\<rparr>"

definition returned_field :: "outcome \<Rightarrow> pyfloat ndarray option" where
  "returned_field r = (case r of Returned s \<Rightarrow> field_of s | Raised e s \<Rightarrow> None)"

definition raised :: "outcome \<Rightarrow> exn option" where
  "raised r = (case r of Returned s \<Rightarrow> None | Raised e s \<Rightarrow> Some e)"

definition state_after :: "outcome \<Rightarrow> MeshSizeFunction" where
  "state_after r = (case r of Returned s \<Rightarrow> s | Raised e s \<Rightarrow> s)"

subsection \<open>A test configuration\<close>

text \<open>The scenario of the test: the box \<open>(-1000, 0, 0, 1000)\<close>, \<open>hmin = 100\<close>, every
  option at its default, and a file of three traces of two samples, all 2000 m/s.\<close>

definition test_file :: segyfile where
  "test_file = SegyFile [Fin 0, Fin 1]
     [[Fin 2000, Fin 2000], [Fin 2000, Fin 2000], [Fin 2000, Fin 2000]]"

definition test_fs :: filesystem where
  "test_fs n = (if n = ''testing.segy'' then Some test_file else None)"

definition test_obj :: MeshSizeFunction where
  "test_obj = \<lparr> bbox = [Fin (- 1000), Fin 0, Fin 0, Fin 1000], hmin = Fin 100,
                segy = ''testing.segy'', wl = Fin 0, freq = Fin 5, hmax = PInf,
                dt = Fin 0, cr_max = Fin (2 / 10), grade = Fin 0,
                vp = None, nz = None, nx = None, fh = None, fd = None \<rparr>"

section \<open>Construction\<close>

text \<open>
  Claim C7. Constructing a MeshSizeFunction fails at once, with an assertion error,
  whenever the bounding box has fewer than 4 or more than 6 values, or hmin is not
  strictly positive, or the segy argument is not a string; every configuration that
  passes the three checks is constructed without error, whatever its other arguments.
\<close>

theorem init_fails_iff:
  "(is_assertion (init b h s w f hm d c g)
      \<longleftrightarrow> length b < 4 \<or> length b > 6 \<or> \<not> fl_gt h (Fin 0) \<or> \<not> is_str s)
   \<and> ((\<exists>obj. init b h s w f hm d c g = Inr obj)
      \<longleftrightarrow> \<not> (length b < 4 \<or> length b > 6 \<or> \<not> fl_gt h (Fin 0) \<or> \<not> is_str s))"
  by (cases s) (auto simp: init_def set_bbox_def set_hmin_def set_segy_def is_str_def
      is_assertion_def)

theorem init_fails_iff_witness:
  "is_assertion (init [Fin 0, Fin 1, Fin 2] (Fin 100) (PyStr ''a.segy'')
       (Fin 0) (Fin 5) PInf (Fin 0) (Fin (2 / 10)) (Fin 0))
   \<and> is_assertion (init [Fin (- 1000), Fin 0, Fin 0, Fin 1000] (Fin 0) (PyStr ''a.segy'')
       (Fin 0) (Fin 5) PInf (Fin 0) (Fin (2 / 10)) (Fin 0))
   \<and> is_assertion (init [Fin (- 1000), Fin 0, Fin 0, Fin 1000] (Fin 100) PyNone
       (Fin 0) (Fin 5) PInf (Fin 0) (Fin (2 / 10)) (Fin 0))
   \<and> (\<exists>obj. init [Fin (- 1000), Fin 0, Fin 0, Fin 1000] (Fin 100) (PyStr ''a.segy'')
       (Fin 0) (Fin 5) PInf (Fin 0) (Fin (2 / 10)) (Fin 0) = Inr obj)"
  using init_fails_iff [of "[Fin 0, Fin 1, Fin 2]" "Fin 100" "PyStr ''a.segy''"
      "Fin 0" "Fin 5" PInf "Fin 0" "Fin (2 / 10)" "Fin 0"]
    init_fails_iff [of "[Fin (- 1000), Fin 0, Fin 0, Fin 1000]" "Fin 0" "PyStr ''a.segy''"
      "Fin 0" "Fin 5" PInf "Fin 0" "Fin (2 / 10)" "Fin 0"]
    init_fails_iff [of "[Fin (- 1000), Fin 0, Fin 0, Fin 1000]" "Fin 100" PyNone
      "Fin 0" "Fin 5" PInf "Fin 0" "Fin (2 / 10)" "Fin 0"]
    init_fails_iff [of "[Fin (- 1000), Fin 0, Fin 0, Fin 1000]" "Fin 100" "PyStr ''a.segy''"
      "Fin 0" "Fin 5" PInf "Fin 0" "Fin (2 / 10)" "Fin 0"]
  by (simp add: fl_gt_def is_str_def)

section \<open>Facts about floats and arrays\<close>

lemma fl_lt_PInf [simp]: "fl_lt PInf y = False"
  by (cases y) simp_all

lemma fl_lt_NaN_right [simp]: "fl_lt x NaN = False"
  by (cases x) simp_all

lemma fl_lt_NInf_right [simp]: "fl_lt x NInf = False"
  by (cases x) simp_all

lemma fl_add_zero [simp]: "fl_add (Fin 0) h = h"
  by (cases h) simp_all

lemma has_shape_nth: "has_shape a n m \<Longrightarrow> i < n \<Longrightarrow> length (a ! i) = m"
  by (simp add: has_shape_def list_all_length)

lemma has_shape_np_map [simp]: "has_shape (np_map f a) n m = has_shape a n m"
  by (simp add: has_shape_def np_map_def list_all_length)

lemma has_shape_np_full [simp]: "has_shape (np_full n m x) n m"
  by (simp add: has_shape_def np_full_def list_all_length)

lemma np_map_nth:
  "i < length a \<Longrightarrow> j < length (a ! i) \<Longrightarrow> np_map f a ! i ! j = f (a ! i ! j)"
  by (simp add: np_map_def)

lemma np_map_np_map: "np_map f (np_map g a) = np_map (f \<circ> g) a"
  by (simp add: np_map_def)

lemma np_map_np_full: "np_map f (np_full n m x) = np_full n m (f x)"
  by (simp add: np_map_def np_full_def)

lemma np_all_np_full: "p x \<Longrightarrow> np_all p (np_full n m x)"
  by (simp add: np_all_def np_full_def list_all_iff)

lemma map2_map_same: "map2 f (map g xs) xs = map (\<lambda>x. f (g x) x) xs"
  by (induction xs) simp_all

lemma np_where_scalar_map:
  "np_where_scalar (np_map p a) x a = np_map (\<lambda>v. if p v then x else v) a"
  by (induction a) (simp_all add: np_where_scalar_def np_map2_def np_map_def map2_map_same)

lemma has_shape_np_map2:
  "has_shape a n m \<Longrightarrow> has_shape b n m \<Longrightarrow> has_shape (np_map2 f a b) n m"
  by (simp add: has_shape_def np_map2_def list_all_length)

section \<open>Facts about the stages\<close>

lemma clamp_stage_eq: "clamp_stage lo hi a = np_map (\<lambda>x. clamp x lo hi) a"
proof -
  have "fl_lt hi PInf \<or> (\<forall>y. \<not> fl_lt hi y)"
    by (cases hi) simp_all
  moreover have "clamp_stage lo hi a =
      (if fl_lt hi PInf
       then np_map ((\<lambda>v. if fl_gt v hi then hi else v) \<circ> (\<lambda>v. if fl_lt v lo then lo else v)) a
       else np_map (\<lambda>v. if fl_lt v lo then lo else v) a)"
    unfolding clamp_stage_def Let_def np_where_scalar_map np_map_np_map ..
  ultimately show ?thesis
    by (auto simp: clamp_def Let_def fl_gt_def comp_def intro!: arg_cong2 [where f = np_map])
qed

lemma wavelength_stage_nth:
  "has_shape v n m \<Longrightarrow> i < n \<Longrightarrow> j < m \<Longrightarrow>
   wavelength_stage rnd v n m lo w f ! i ! j
     = (if fl_gt w (Fin 0) then fl_div rnd (v ! i ! j) (fl_mul rnd f w) else lo)"
  by (simp add: wavelength_stage_def Let_def np_map_def np_full_def has_shape_def
      list_all_length)

lemma has_shape_wavelength_stage:
  "has_shape v n m \<Longrightarrow> has_shape (wavelength_stage rnd v n m lo w f) n m"
  by (simp add: wavelength_stage_def Let_def)

lemma has_shape_clamp_stage: "has_shape a n m \<Longrightarrow> has_shape (clamp_stage lo hi a) n m"
  by (simp add: clamp_stage_eq)

lemma cr_old_nth:
  "has_shape v n m \<Longrightarrow> has_shape a n m \<Longrightarrow> i < n \<Longrightarrow> j < m \<Longrightarrow>
   cr_old rnd v d a ! i ! j = fl_div rnd (fl_mul rnd (v ! i ! j) d) (a ! i ! j)"
  by (simp add: cr_old_def np_map2_def np_map_def has_shape_def list_all_length)

lemma cfl_stage_nth:
  "has_shape v n m \<Longrightarrow> has_shape a n m \<Longrightarrow> i < n \<Longrightarrow> j < m \<Longrightarrow>
   cfl_stage rnd v d c a ! i ! j =
     (if fl_gt d (Fin 0) \<and> fl_gt (fl_div rnd (fl_mul rnd (v ! i ! j) d) (a ! i ! j)) c
      then fl_div rnd (fl_mul rnd (v ! i ! j) d) c else a ! i ! j)"
  by (simp add: cfl_stage_def np_where_def cr_old_def dxn_def np_map2_def np_map_def
      has_shape_def list_all_length)

lemma has_shape_cfl_stage:
  "has_shape v n m \<Longrightarrow> has_shape a n m \<Longrightarrow> has_shape (cfl_stage rnd v d c a) n m"
  by (simp add: cfl_stage_def np_where_def cr_old_def dxn_def has_shape_np_map2)

lemma fill_columns_length:
  "fill_columns n trs = Inr cs \<Longrightarrow> length cs = length trs \<and> list_all (\<lambda>c. length c = n) cs"
  by (induction trs arbitrary: cs) (auto simp: assign_column_def split: sum.splits if_splits)

lemma ReadVelocityModel_shape:
  "ReadVelocityModel fs self = Inr (v, n, m) \<Longrightarrow> has_shape v n m"
  by (auto simp: ReadVelocityModel_def Let_def has_shape_def flipud_def list_all_iff
      split: option.splits sum.splits dest!: fill_columns_length)

lemma final_field_disabled:
  assumes "\<not> fl_gt (wl self) (Fin 0)" "\<not> fl_gt (dt self) (Fin 0)"
  shows "final_field rnd self v n m = np_full n m (clamp (hmin self) (hmin self) (hmax self))"
  using assms
  by (simp add: final_field_def pre_gradation_field_def cfl_stage_def wavelength_stage_def
      clamp_stage_eq np_map_np_full Let_def)

section \<open>Facts about build\<close>

lemma getattr_hj: "getattr_self ''__hj'' = Inl (AttributeError ''_MeshSizeFunction__hj'')"
  by (simp add: getattr_self_def mangle_def is_private_def class_dict_def instance_dict_def
      class_body_names_def)

lemma getattr_drectangle: "getattr_self ''drectangle'' = Inl (AttributeError ''drectangle'')"
  by (simp add: getattr_self_def mangle_def is_private_def class_dict_def instance_dict_def
      class_body_names_def)

lemma max_seq_Inr: "b \<noteq> [] \<Longrightarrow> \<exists>w. max_seq b = Inr w"
  by (cases b) (simp_all add: max_seq_def)

lemma min_seq_Inr: "b \<noteq> [] \<Longrightarrow> \<exists>w. min_seq b = Inr w"
  by (cases b) (simp_all add: min_seq_def)

text \<open>Once the box is not empty and the file is read, \<open>build\<close> ends in one of four
  ways.\<close>

lemma build_r_unfold:
  assumes "max_seq (bbox self) = Inr w" and "min_seq (bbox self) = Inr d"
    and "ReadVelocityModel fs self = Inr (v, n, m)"
  shows "build_r rnd fs self =
     (if fl_gt (grade self) (Fin 0)
      then Raised (AttributeError ''_MeshSizeFunction__hj'') (loaded self v n m)
      else if \<not> np_all (\<lambda>h. fl_gt h (Fin 0)) (final_field rnd self v n m)
      then Raised (AssertionError ''edge_size_function must be strictly positive.'')
             (loaded self v n m)
      else (case make_interpolator (linspace rnd d (Fin 0) n) (linspace rnd (Fin 0) w m)
                  (final_field rnd self v n m) of
              Inl e \<Rightarrow> Raised e (loaded self v n m)
            | Inr f \<Rightarrow> Returned ((loaded self v n m)
                        \<lparr>fh := Some f, fd := Some (Drectangle_closure (bbox self))\<rparr>)))"
  by (simp add: build_r_def build_tail_def assms getattr_hj CreateDomainVectors_def
      final_field_def pre_gradation_field_def loaded_def Let_def split: sum.splits)

lemma build_r_Returned:
  assumes "build_r rnd fs self = Returned s"
  shows "\<exists>w d v n m. max_seq (bbox self) = Inr w \<and> min_seq (bbox self) = Inr d
           \<and> ReadVelocityModel fs self = Inr (v, n, m) \<and> \<not> fl_gt (grade self) (Fin 0)
           \<and> np_all (\<lambda>h. fl_gt h (Fin 0)) (final_field rnd self v n m)
           \<and> s = (loaded self v n m)
             \<lparr>fh := Some (RegularGridInterpolator (linspace rnd d (Fin 0) n)
                            (linspace rnd (Fin 0) w m) (final_field rnd self v n m)),
              fd := Some (Drectangle_closure (bbox self))\<rparr>"
proof (cases "max_seq (bbox self)")
  case (Inl e)
  with assms show ?thesis by (simp add: build_r_def)
next
  case w: (Inr w)
  then have "bbox self \<noteq> []" by (auto simp: max_seq_def)
  then obtain d where d: "min_seq (bbox self) = Inr d" using min_seq_Inr by blast
  show ?thesis
  proof (cases "ReadVelocityModel fs self")
    case (Inl e)
    with assms w show ?thesis by (simp add: build_r_def)
  next
    case (Inr t)
    obtain v n m where t: "t = (v, n, m)" by (cases t)
    from assms build_r_unfold [OF w d Inr [unfolded t]] w d Inr t show ?thesis
      by (auto simp: make_interpolator_def split: if_splits)
  qed
qed

lemmas build_unfold = build_r_unfold [where rnd = exact]

lemmas build_Returned = build_r_Returned [where rnd = exact]

text \<open>The axes of a box whose smallest value is negative and whose largest value is
  positive are strictly ascending.\<close>

lemma strictly_ascending_snoc:
  "strictly_ascending (ps @ [q]) \<longleftrightarrow>
     strictly_ascending ps \<and> (ps = [] \<or> fl_gt (fl_sub q (last ps)) (Fin 0))"
  by (induction ps rule: strictly_ascending.induct) auto

lemma strictly_ascending_map_upt:
  assumes "\<And>k. Suc k < n \<Longrightarrow> fl_gt (fl_sub (f (Suc k)) (f k)) (Fin 0)"
  shows "strictly_ascending (map f [0..<n])"
  using assms
proof (induction n)
  case 0
  show ?case by simp
next
  case (Suc n)
  have 1: "strictly_ascending (map f [0..<n])" using Suc.prems by (intro Suc.IH) simp
  have 2: "map f [0..<n] = [] \<or> fl_gt (fl_sub (f n) (last (map f [0..<n]))) (Fin 0)"
  proof (cases n)
    case 0
    then show ?thesis by simp
  next
    case (Suc k)
    then have "last (map f [0..<n]) = f k" by (simp add: last_map)
    then show ?thesis using Suc.prems [of k] Suc by simp
  qed
  have "map f [0..<Suc n] = map f [0..<n] @ [f n]" by simp
  then show ?case using 1 2 by (simp only: strictly_ascending_snoc)
qed

lemma strictly_ascending_linspace:
  assumes "a < b"
  shows "strictly_ascending (linspace exact (Fin a) (Fin b) n)"
proof (cases "n < 2")
  case True
  then have "n = 0 \<or> n = 1" by auto
  then show ?thesis by (auto simp: linspace_def)
next
  case False
  then have n: "2 \<le> n" by simp
  define st where "st = (b - a) / real (n - 1)"
  have st: "0 < st" using assms n by (simp add: st_def)
  define f where "f k = Fin (real k * st + a)" for k
  have lin: "linspace exact (Fin a) (Fin b) n = map f [0..<n - 1] @ [Fin b]"
    using n by (simp add: linspace_def Let_def fl_sub_def st_def f_def exact_def)
  have 1: "strictly_ascending (map f [0..<n - 1])"
    by (rule strictly_ascending_map_upt)
      (use st in \<open>simp add: f_def fl_sub_def fl_gt_def algebra_simps\<close>)
  have "real (n - 2) * st + st = b - a"
  proof -
    have "real (n - 2) + 1 = real (n - 1)" using n by simp
    then have "real (n - 2) * st + st = real (n - 1) * st" by (simp add: algebra_simps)
    also have "\<dots> = b - a" using n by (simp add: st_def)
    finally show ?thesis .
  qed
  then have 2: "fl_gt (fl_sub (Fin b) (f (n - 2))) (Fin 0)"
    using st by (simp add: f_def fl_sub_def fl_gt_def)
  have "n - 1 = Suc (n - 2)" using n by simp
  then have "last (map f [0..<n - 1]) = f (n - 2)"
    by (simp add: last_map)
  with 1 2 show ?thesis
    by (simp add: lin strictly_ascending_snoc)
qed

lemma returned_field_Some: "returned_field r = Some h \<Longrightarrow> \<exists>s. r = Returned s"
  by (cases r) (simp_all add: returned_field_def)

text \<open>The test configuration, evaluated.\<close>

lemma read_test: "ReadVelocityModel test_fs test_obj = Inr (np_full 2 3 (Fin 2000), 2, 3)"
  by (simp add: ReadVelocityModel_def test_fs_def test_obj_def test_file_def assign_column_def
      flipud_def np_full_def Let_def numeral_2_eq_2 numeral_3_eq_3)

lemma max_seq_test: "max_seq [Fin (- 1000), Fin 0, Fin 0, Fin 1000] = Inr (Fin 1000)"
  by (simp add: max_seq_def py_max_def fl_gt_def)

lemma min_seq_test: "min_seq [Fin (- 1000), Fin 0, Fin 0, Fin 1000] = Inr (Fin (- 1000))"
  by (simp add: min_seq_def py_min_def)

lemma make_interpolator_test:
  "make_interpolator (linspace exact (Fin (- 1000)) (Fin 0) n)
       (linspace exact (Fin 0) (Fin 1000) m) h
     = Inr (RegularGridInterpolator (linspace exact (Fin (- 1000)) (Fin 0) n)
              (linspace exact (Fin 0) (Fin 1000) m) h)"
  by (simp add: make_interpolator_def strictly_ascending_linspace)

lemma build_test_returns: "\<exists>s. build test_fs test_obj = Returned s"
proof -
  have ff: "final_field exact test_obj (np_full 2 3 (Fin 2000)) 2 3 = np_full 2 3 (Fin 100)"
    by (subst final_field_disabled) (simp_all add: test_obj_def fl_gt_def clamp_def)
  have b: "bbox test_obj = [Fin (- 1000), Fin 0, Fin 0, Fin 1000]"
    by (simp add: test_obj_def)
  have g: "\<not> fl_gt (grade test_obj) (Fin 0)"
    by (simp add: test_obj_def fl_gt_def)
  have pos: "np_all (\<lambda>h. fl_gt h (Fin 0)) (np_full 2 3 (Fin 100))"
    by (rule np_all_np_full) (simp add: fl_gt_def)
  show ?thesis
    using build_unfold [OF max_seq_test [folded b] min_seq_test [folded b] read_test]
    by (simp add: ff g pos make_interpolator_test)
qed

section \<open>The test scenario\<close>

text \<open>
  Claim C8. For the bounding box \<open>(-1000, 0, 0, 1000)\<close>, a uniform velocity grid of
  2000 m/s of any shape, \<open>hmin = 100\<close>, and the wavelength, hmax, CFL and gradation
  options all disabled (\<open>wl = 0\<close>, \<open>hmax = +infinity\<close>, \<open>dt = 0\<close>, \<open>grade = 0\<close>),
  \<open>build\<close> returns, and the field it produces is 100 at every cell.
\<close>

theorem build_test_scenario:
  assumes "ReadVelocityModel fs test_obj = Inr (np_full n m (Fin 2000), n, m)"
  shows "returned_field (build fs test_obj) = Some (np_full n m (Fin 100))"
proof -
  have ff: "final_field exact test_obj (np_full n m (Fin 2000)) n m = np_full n m (Fin 100)"
    by (subst final_field_disabled) (simp_all add: test_obj_def fl_gt_def clamp_def)
  have b: "bbox test_obj = [Fin (- 1000), Fin 0, Fin 0, Fin 1000]"
    by (simp add: test_obj_def)
  have g: "\<not> fl_gt (grade test_obj) (Fin 0)"
    by (simp add: test_obj_def fl_gt_def)
  have pos: "np_all (\<lambda>h. fl_gt h (Fin 0)) (np_full n m (Fin 100))"
    by (rule np_all_np_full) (simp add: fl_gt_def)
  show ?thesis
    using build_unfold [OF max_seq_test [folded b] min_seq_test [folded b] assms]
    by (simp add: ff g pos returned_field_def field_of_def make_interpolator_test)
qed

theorem build_test_scenario_witness:
  "ReadVelocityModel test_fs test_obj = Inr (np_full 2 3 (Fin 2000), 2, 3)
   \<and> returned_field (build test_fs test_obj)
       = Some [[Fin 100, Fin 100, Fin 100], [Fin 100, Fin 100, Fin 100]]"
  using build_test_scenario [OF read_test] read_test
  by (simp add: np_full_def numeral_2_eq_2 numeral_3_eq_3)

section \<open>The gradation stage\<close>

text \<open>
  Claim C9. For every configuration with \<open>grade > 0\<close>, \<open>build\<close> never returns; when
  it reaches the gradation stage (the box is not empty and the file is read) it raises
  AttributeError there, with the velocity model stored and \<open>fh\<close> and \<open>fd\<close> untouched.
  The stage asks for \<open>self.__hj\<close>, which is mangled to \<open>_MeshSizeFunction__hj\<close>; the
  class defines the wrapper under the name \<open>hj\<close>, so neither the class nor the instance
  has an attribute of the mangled name.
\<close>

theorem build_gradation_raises:
  assumes "fl_gt (grade self) (Fin 0)"
  shows "(\<forall>s. build fs self \<noteq> Returned s)
    \<and> (\<forall>v n m. bbox self \<noteq> [] \<and> ReadVelocityModel fs self = Inr (v, n, m) \<longrightarrow>
          build fs self = Raised (AttributeError ''_MeshSizeFunction__hj'')
                            (self\<lparr>vp := Some v, nz := Some n, nx := Some m\<rparr>))
    \<and> mangle ''MeshSizeFunction'' ''__hj'' = ''_MeshSizeFunction__hj''
    \<and> ''_MeshSizeFunction__hj'' \<notin> set class_dict \<union> set instance_dict
    \<and> ''hj'' \<in> set class_dict"
proof (intro conjI allI impI)
  fix s show "build fs self \<noteq> Returned s"
    using build_Returned [of fs self s] assms by blast
next
  fix v n m assume a: "bbox self \<noteq> [] \<and> ReadVelocityModel fs self = Inr (v, n, m)"
  obtain w where w: "max_seq (bbox self) = Inr w" using max_seq_Inr a by blast
  obtain d where d: "min_seq (bbox self) = Inr d" using min_seq_Inr a by blast
  show "build fs self = Raised (AttributeError ''_MeshSizeFunction__hj'')
                            (self\<lparr>vp := Some v, nz := Some n, nx := Some m\<rparr>)"
    using build_unfold [OF w d conjunct2 [OF a]] assms by (simp add: loaded_def)
qed (simp_all add: mangle_def is_private_def class_dict_def instance_dict_def
      class_body_names_def)

theorem build_gradation_raises_witness:
  "fl_gt (grade (test_obj\<lparr>grade := Fin 5\<rparr>)) (Fin 0)
   \<and> build test_fs (test_obj\<lparr>grade := Fin 5\<rparr>)
       = Raised (AttributeError ''_MeshSizeFunction__hj'')
           (test_obj\<lparr>grade := Fin 5, vp := Some [[Fin 2000, Fin 2000, Fin 2000],
                                                     [Fin 2000, Fin 2000, Fin 2000]],
                       nz := Some 2, nx := Some 3\<rparr>)"
proof -
  have g: "fl_gt (grade (test_obj\<lparr>grade := Fin 5\<rparr>)) (Fin 0)"
    by (simp add: fl_gt_def)
  have r: "ReadVelocityModel test_fs (test_obj\<lparr>grade := Fin 5\<rparr>)
             = Inr ([[Fin 2000, Fin 2000, Fin 2000], [Fin 2000, Fin 2000, Fin 2000]], 2, 3)"
    by (simp add: ReadVelocityModel_def test_fs_def test_obj_def test_file_def
        assign_column_def flipud_def Let_def numeral_2_eq_2)
  have b: "bbox (test_obj\<lparr>grade := Fin 5\<rparr>) \<noteq> []"
    by (simp add: test_obj_def)
  show ?thesis
    using build_gradation_raises [OF g, of test_fs] g r b by simp
qed

section \<open>The effect of build on the receiver\<close>

text \<open>
  Claim C10. Whenever a call of \<open>build\<close> returns, it has updated the receiver in place
  and returns the receiver's own reference: no other object of the store changes, the
  receiver differs from its old state in exactly the fields \<open>vp\<close>, \<open>nz\<close>, \<open>nx\<close>, \<open>fh\<close>
  and \<open>fd\<close>, all of which are set, and every configuration field (\<open>bbox\<close>, \<open>hmin\<close>,
  \<open>segy\<close>, \<open>wl\<close>, \<open>freq\<close>, \<open>hmax\<close>, \<open>dt\<close>, \<open>cr_max\<close>, \<open>grade\<close>) keeps its value.
\<close>

theorem call_build_mutates_receiver:
  assumes "call_build fs r H = (Inr r', H')"
  shows "r' = r \<and> (\<forall>q. q \<noteq> r \<longrightarrow> H' q = H q)
    \<and> (\<exists>self s. H r = Some self \<and> H' r = Some s
          \<and> (\<exists>v n m f g. s = self\<lparr>vp := Some v, nz := Some n, nx := Some m,
                                    fh := Some f, fd := Some g\<rparr>)
          \<and> bbox s = bbox self \<and> hmin s = hmin self \<and> segy s = segy self
          \<and> wl s = wl self \<and> freq s = freq self \<and> hmax s = hmax self
          \<and> dt s = dt self \<and> cr_max s = cr_max self \<and> grade s = grade self)"
proof (cases "H r")
  case None
  with assms show ?thesis by (simp add: call_build_def)
next
  case (Some self)
  show ?thesis
  proof (cases "build fs self")
    case (Raised e s)
    with assms Some show ?thesis by (simp add: call_build_def)
  next
    case (Returned s)
    from build_Returned [OF Returned] obtain w d v n m where
      s: "s = (loaded self v n m)
             \<lparr>fh := Some (RegularGridInterpolator (linspace exact d (Fin 0) n)
                            (linspace exact (Fin 0) w m) (final_field exact self v n m)),
              fd := Some (Drectangle_closure (bbox self))\<rparr>" by blast
    from assms Some Returned have "r' = r" "H' = H(r \<mapsto> s)"
      by (auto simp: call_build_def)
    then have "r' = r" "\<forall>q. q \<noteq> r \<longrightarrow> H' q = H q" "H' r = Some s"
      by simp_all
    moreover have "\<exists>v n m f g. s = self\<lparr>vp := Some v, nz := Some n, nx := Some m,
                                    fh := Some f, fd := Some g\<rparr>"
      unfolding s loaded_def by blast
    moreover have "bbox s = bbox self \<and> hmin s = hmin self \<and> segy s = segy self
          \<and> wl s = wl self \<and> freq s = freq self \<and> hmax s = hmax self
          \<and> dt s = dt self \<and> cr_max s = cr_max self \<and> grade s = grade self"
      by (simp add: s loaded_def)
    ultimately show ?thesis using Some by blast
  qed
qed

theorem call_build_mutates_receiver_witness:
  "fst (call_build test_fs 7 [7 \<mapsto> test_obj]) = Inr 7
   \<and> snd (call_build test_fs 7 [7 \<mapsto> test_obj]) 3 = None
   \<and> (\<exists>s. snd (call_build test_fs 7 [7 \<mapsto> test_obj]) 7 = Some s
          \<and> hmin s = Fin 100 \<and> grade s = Fin 0)"
proof -
  obtain s where s: "build test_fs test_obj = Returned s"
    using build_test_returns by blast
  have f: "fst (call_build test_fs 7 [7 \<mapsto> test_obj]) = Inr 7"
    by (simp add: call_build_def s)
  have c: "call_build test_fs 7 [7 \<mapsto> test_obj]
             = (Inr 7, snd (call_build test_fs 7 [7 \<mapsto> test_obj]))"
    by (rule prod_eqI) (simp_all add: f)
  have t: "hmin test_obj = Fin 100" "grade test_obj = Fin 0"
    by (simp_all add: test_obj_def)
  from call_build_mutates_receiver [OF c] obtain self s' where
    "\<forall>q. q \<noteq> 7 \<longrightarrow> snd (call_build test_fs 7 [7 \<mapsto> test_obj]) q = [7 \<mapsto> test_obj] q"
    "[7 \<mapsto> test_obj] (7::nat) = Some self"
    "snd (call_build test_fs 7 [7 \<mapsto> test_obj]) 7 = Some s'"
    "hmin s' = hmin self" "grade s' = grade self"
    by blast
  then show ?thesis using f t by simp
qed

section \<open>Further facts used below\<close>

lemma fl_le_Fin [simp]: "fl_le (Fin a) (Fin b) = (a \<le> b)"
  by auto

lemma pre_gradation_field_nth:
  assumes "has_shape v n m" "i < n" "j < m"
  shows "pre_gradation_field rnd self v n m ! i ! j
           = clamp (raw_size rnd self (v ! i ! j)) (hmin self) (hmax self)"
proof -
  have sh: "has_shape (wavelength_stage rnd v n m (hmin self) (wl self) (freq self)) n m"
    using assms(1) by (rule has_shape_wavelength_stage)
  then have "length (wavelength_stage rnd v n m (hmin self) (wl self) (freq self)) = n"
    "length (wavelength_stage rnd v n m (hmin self) (wl self) (freq self) ! i) = m"
    using assms(2) by (simp_all add: has_shape_def list_all_length)
  then show ?thesis
    using assms
    by (simp add: pre_gradation_field_def clamp_stage_eq np_map_nth wavelength_stage_nth
        raw_size_def)
qed

lemma has_shape_pre_gradation_field:
  "has_shape v n m \<Longrightarrow> has_shape (pre_gradation_field rnd self v n m) n m"
  by (simp add: pre_gradation_field_def has_shape_clamp_stage has_shape_wavelength_stage)

lemma np_all_nth:
  "np_all p a \<Longrightarrow> i < length a \<Longrightarrow> j < length (a ! i) \<Longrightarrow> p (a ! i ! j)"
  by (simp add: np_all_def list_all_length)

lemma clamp_lower:
  "fl_gt (clamp x lo hi) (Fin 0) \<Longrightarrow> fl_le lo hi \<Longrightarrow> fl_ge (clamp x lo hi) lo"
  by (cases x; cases lo; cases hi) (auto simp: clamp_def fl_gt_def fl_ge_def Let_def)

lemma clamp_upper:
  "fl_gt (clamp x lo hi) (Fin 0) \<Longrightarrow> isfinite hi \<Longrightarrow> fl_le (clamp x lo hi) hi"
  by (cases x; cases lo; cases hi)
    (auto simp: clamp_def fl_gt_def isfinite_def Let_def split: if_splits)

lemma build_returned_field:
  assumes "bbox self = [Fin (- 1000), Fin 0, Fin 0, Fin 1000]"
    and "ReadVelocityModel fs self = Inr (v, n, m)"
    and "\<not> fl_gt (grade self) (Fin 0)"
    and "np_all (\<lambda>h. fl_gt h (Fin 0)) (final_field exact self v n m)"
  shows "returned_field (build fs self) = Some (final_field exact self v n m)"
  using build_unfold [OF max_seq_test [folded assms(1)] min_seq_test [folded assms(1)] assms(2)]
    assms(3,4)
  by (simp add: returned_field_def field_of_def make_interpolator_test)

lemma read_test_any:
  "segy self = ''testing.segy'' \<Longrightarrow>
   ReadVelocityModel test_fs self = Inr (np_full 2 3 (Fin 2000), 2, 3)"
  by (simp add: ReadVelocityModel_def test_fs_def test_file_def assign_column_def
      flipud_def np_full_def Let_def numeral_2_eq_2 numeral_3_eq_3)

lemma not_positive_iff: "(\<not> fl_gt h (Fin 0)) = (h = NaN \<or> fl_le h (Fin 0))"
  by (cases h) (auto simp: fl_gt_def)

lemma not_np_all_positive:
  "(\<not> np_all (\<lambda>h. fl_gt h (Fin 0)) a) = np_any (\<lambda>h. h = NaN \<or> fl_le h (Fin 0)) a"
  by (simp add: np_all_def np_any_def list_all_iff list_ex_iff not_positive_iff)

lemma call_fd_raises:
  "fd self = Some c \<Longrightarrow> call_fd self p = Inl (AttributeError ''drectangle'')"
  by (cases c) (simp add: call_fd_def getattr_drectangle)

lemma drectangle_sign:
  assumes "x1 < x2" and "y1 < y2"
  shows "(x1 < p0 \<and> p0 < x2 \<and> y1 < p1 \<and> p1 < y2 \<longrightarrow>
            fl_lt (drectangle (Fin p0, Fin p1) (Fin x1) (Fin x2) (Fin y1) (Fin y2)) (Fin 0))
       \<and> (p0 < x1 \<or> x2 < p0 \<or> p1 < y1 \<or> y2 < p1 \<longrightarrow>
            fl_gt (drectangle (Fin p0, Fin p1) (Fin x1) (Fin x2) (Fin y1) (Fin y2)) (Fin 0))"
  using assms by (auto simp: drectangle_def py_min_def fl_sub_def fl_gt_def)

section \<open>Facts about roundings\<close>

lemma is_rounding_exact: "is_rounding exact"
  unfolding is_rounding_def exact_def fl_le_Fin by simp

lemma is_rounding_to_nearest_integer: "is_rounding to_nearest_integer"
  unfolding is_rounding_def to_nearest_integer_def fl_le_Fin by (simp add: round_mono)

lemma is_rounding_not_NaN: "is_rounding rnd \<Longrightarrow> rnd x \<noteq> NaN"
proof
  assume a: "is_rounding rnd" "rnd x = NaN"
  then have "fl_le (rnd x) (rnd x)" unfolding is_rounding_def by blast
  with a show False by simp
qed

lemma is_rounding_mono: "is_rounding rnd \<Longrightarrow> x \<le> y \<Longrightarrow> fl_le (rnd x) (rnd y)"
  unfolding is_rounding_def by blast

lemma fl_le_not_gt: "fl_le a b \<Longrightarrow> \<not> fl_gt a b"
  by (cases a; cases b) (auto simp: fl_gt_def)

lemma not_gt_fl_le: "a \<noteq> NaN \<Longrightarrow> b \<noteq> NaN \<Longrightarrow> \<not> fl_gt a b \<Longrightarrow> fl_le a b"
  by (cases a; cases b) (auto simp: fl_gt_def)

text \<open>One cell of the CFL stage under a monotone rounding: \<open>x\<close> is the rounded product
  \<open>velocity * dt\<close>, \<open>h\<close> the value of the cell, \<open>cc\<close> the limit.\<close>

lemma cfl_cell_rounded:
  assumes r: "is_rounding rnd" and cc: "0 < cc" "rnd cc = Fin cc"
    and h: "0 < h" "rnd h = Fin h" and xn: "x \<noteq> NaN"
  shows "fl_gt (fl_div rnd x (Fin h)) (Fin cc) \<Longrightarrow> fl_le (Fin h) (fl_div rnd x (Fin cc))"
    and "\<not> fl_gt (fl_div rnd x (Fin h)) (Fin cc) \<Longrightarrow> fl_le (fl_div rnd x (Fin h)) (Fin cc)"
proof -
  have qn: "fl_div rnd x (Fin h) \<noteq> NaN"
    using xn h r by (cases x) (simp_all add: is_rounding_not_NaN)
  show "fl_le (fl_div rnd x (Fin h)) (Fin cc)" if "\<not> fl_gt (fl_div rnd x (Fin h)) (Fin cc)"
    using that qn by (intro not_gt_fl_le) simp_all
  show "fl_le (Fin h) (fl_div rnd x (Fin cc))" if t: "fl_gt (fl_div rnd x (Fin h)) (Fin cc)"
  proof (cases x)
    case NaN
    with xn show ?thesis by simp
  next
    case NInf
    with t h show ?thesis by (simp add: fl_gt_def)
  next
    case PInf
    with cc show ?thesis by simp
  next
    case (Fin y)
    have "\<not> y / h \<le> cc"
    proof
      assume "y / h \<le> cc"
      then have "fl_le (rnd (y / h)) (rnd cc)" using r by (rule is_rounding_mono [rotated])
      then have "\<not> fl_gt (rnd (y / h)) (Fin cc)" unfolding cc(2) by (rule fl_le_not_gt)
      with t Fin h show False by simp
    qed
    then have "h \<le> y / cc" using h cc by (simp add: field_simps)
    then have "fl_le (rnd h) (rnd (y / cc))" using r by (rule is_rounding_mono [rotated])
    then show ?thesis using Fin cc h by simp
  qed
qed

lemma cfl_cell_accurate:
  assumes r: "is_rounding rnd" and cc: "0 < cc" "rnd cc = Fin cc" and h: "0 < h"
    and t: "fl_gt (fl_div rnd (Fin x) (Fin h)) (Fin cc)"
    and e: "0 \<le> eps" "eps < 1"
    and y: "fl_div rnd (Fin x) (Fin cc) = Fin y"
    and a1: "accurate rnd eps (x / cc)" and a2: "accurate rnd eps (x / y)"
  shows "fl_le (fl_div rnd (Fin x) (Fin y)) (Fin (cc * (1 + eps) / (1 - eps)))"
proof -
  have "\<not> x / h \<le> cc"
  proof
    assume "x / h \<le> cc"
    then have "fl_le (rnd (x / h)) (rnd cc)" using r by (rule is_rounding_mono [rotated])
    then have "\<not> fl_gt (rnd (x / h)) (Fin cc)" unfolding cc(2) by (rule fl_le_not_gt)
    with t h show False by simp
  qed
  then have "cc * h < x" using h by (simp add: field_simps)
  moreover have "0 < cc * h" using cc h by simp
  ultimately have x: "0 < x" by linarith
  have yy: "rnd (x / cc) = Fin y" using y cc by simp
  define z where "z = x / cc"
  have z: "0 < z" using x cc by (simp add: z_def)
  have "\<bar>y - z\<bar> \<le> eps * \<bar>z\<bar>" using a1 by (simp add: accurate_def yy z_def)
  then have "z - eps * z \<le> y" using z by (simp add: abs_le_iff)
  then have ylow: "(1 - eps) * z \<le> y" by (simp add: left_diff_distrib)
  have "0 < (1 - eps) * z" using e z by simp
  with ylow have y0: "0 < y" by linarith
  define w where "w = x / y"
  have w: "0 < w" using x y0 by (simp add: w_def)
  obtain q where q: "rnd w = Fin q" "\<bar>q - w\<bar> \<le> eps * \<bar>w\<bar>"
    using a2 by (auto simp: accurate_def w_def split: pyfloat.splits)
  have "q \<le> w + eps * w" using q(2) w by (simp add: abs_le_iff)
  then have q1: "q \<le> (1 + eps) * w" by (simp add: distrib_right)
  have "x * (1 - eps) \<le> y * cc" using ylow cc by (simp add: z_def field_simps)
  then have "w \<le> cc / (1 - eps)" using y0 e by (simp add: w_def field_simps)
  then have "(1 + eps) * w \<le> (1 + eps) * (cc / (1 - eps))"
    using e by (intro mult_left_mono) simp_all
  with q1 have "q \<le> (1 + eps) * (cc / (1 - eps))" by linarith
  then have "q \<le> cc * (1 + eps) / (1 - eps)" by (simp add: mult.commute)
  then have "fl_le (Fin q) (Fin (cc * (1 + eps) / (1 - eps)))" by (simp only: fl_le_Fin)
  moreover have "fl_div rnd (Fin x) (Fin y) = Fin q" using q(1) y0 by (simp add: w_def)
  ultimately show ?thesis by (simp only:)
qed

text \<open>The field that \<open>build\<close> returns is the field after the CFL stage.\<close>

lemma build_r_field:
  assumes "ReadVelocityModel fs self = Inr (v, n, m)"
    and "returned_field (build_r rnd fs self) = Some h"
  shows "h = final_field rnd self v n m"
    and "np_all (\<lambda>h. fl_gt h (Fin 0)) (final_field rnd self v n m)"
    and "\<not> fl_gt (grade self) (Fin 0)"
proof -
  from returned_field_Some [OF assms(2)] obtain s where s: "build_r rnd fs self = Returned s"
    by blast
  from build_r_Returned [OF s] assms s
  show "h = final_field rnd self v n m"
    and "np_all (\<lambda>h. fl_gt h (Fin 0)) (final_field rnd self v n m)"
    and "\<not> fl_gt (grade self) (Fin 0)"
    by (auto simp: returned_field_def field_of_def loaded_def)
qed

section \<open>The sizing stages\<close>



section \<open>Bounds on the field that build returns\<close>

text \<open>
  Claim C2, as stated: for every valid configuration, every cell of the field produced by
  \<open>build\<close> whose CFL adjustment was not triggered is at least \<open>hmin\<close>. It fails when
  \<open>hmax\<close> is below \<open>hmin\<close>, a configuration that the constructor accepts and on which
  \<open>build\<close> returns: with \<open>hmin = 100\<close> and \<open>hmax = 50\<close> every cell is first raised to
  100 and then lowered to 50; the CFL stage is off, and the field returned is 50 at every
  cell.
\<close>

theorem build_below_hmin:
  "init [Fin (- 1000), Fin 0, Fin 0, Fin 1000] (Fin 100) (PyStr ''testing.segy'')
      (Fin 0) (Fin 5) (Fin 50) (Fin 0) (Fin (2 / 10)) (Fin 0)
     = Inr (test_obj\<lparr>hmax := Fin 50\<rparr>)
   \<and> returned_field (build test_fs (test_obj\<lparr>hmax := Fin 50\<rparr>))
       = Some [[Fin 50, Fin 50, Fin 50], [Fin 50, Fin 50, Fin 50]]
   \<and> \<not> cfl_triggered exact (np_full 2 3 (Fin 2000)) (dt (test_obj\<lparr>hmax := Fin 50\<rparr>))
         (cr_max (test_obj\<lparr>hmax := Fin 50\<rparr>))
         (pre_gradation_field exact (test_obj\<lparr>hmax := Fin 50\<rparr>) (np_full 2 3 (Fin 2000)) 2 3)
         0 0
   \<and> hmin (test_obj\<lparr>hmax := Fin 50\<rparr>) = Fin 100
   \<and> \<not> fl_ge (Fin 50) (Fin 100)"
proof -
  let ?o = "test_obj\<lparr>hmax := Fin 50\<rparr>"
  have b: "bbox ?o = [Fin (- 1000), Fin 0, Fin 0, Fin 1000]"
    and g: "\<not> fl_gt (grade ?o) (Fin 0)"
    by (simp_all add: test_obj_def fl_gt_def)
  have rd: "ReadVelocityModel test_fs ?o = Inr (np_full 2 3 (Fin 2000), 2, 3)"
    by (rule read_test_any) (simp add: test_obj_def)
  have ff: "final_field exact ?o (np_full 2 3 (Fin 2000)) 2 3 = np_full 2 3 (Fin 50)"
    by (subst final_field_disabled) (simp_all add: test_obj_def fl_gt_def clamp_def)
  have r: "returned_field (build test_fs ?o) = Some (np_full 2 3 (Fin 50))"
    using build_returned_field [OF b rd g, unfolded ff]
    by (simp add: fl_gt_def np_all_np_full)
  have i: "init [Fin (- 1000), Fin 0, Fin 0, Fin 1000] (Fin 100) (PyStr ''testing.segy'')
      (Fin 0) (Fin 5) (Fin 50) (Fin 0) (Fin (2 / 10)) (Fin 0) = Inr ?o"
    by (simp add: init_def set_bbox_def set_hmin_def set_segy_def fl_gt_def test_obj_def)
  have t: "\<not> cfl_triggered exact (np_full 2 3 (Fin 2000)) (dt ?o) (cr_max ?o)
         (pre_gradation_field exact ?o (np_full 2 3 (Fin 2000)) 2 3) 0 0"
    by (simp add: cfl_triggered_def test_obj_def fl_gt_def)
  show ?thesis
    using r i t
    by (simp add: np_full_def fl_ge_def numeral_2_eq_2 numeral_3_eq_3 test_obj_def)
qed

text \<open>
  Claim C2, amended. For every configuration, every cell of the field produced by
  \<open>build\<close> whose CFL adjustment was not triggered is at most \<open>hmax\<close> whenever \<open>hmax\<close>
  is finite, and is at least \<open>hmin\<close> whenever \<open>hmin \<le> hmax\<close>. (A field is produced
  only when the gradation stage is off, so no cell of a produced field was overridden by
  gradation.) This holds however the products and quotients are rounded.
\<close>

theorem build_field_bounds:
  assumes "ReadVelocityModel fs self = Inr (v, n, m)"
    and "returned_field (build_r rnd fs self) = Some h" and "i < n" and "j < m"
    and "\<not> cfl_triggered rnd v (dt self) (cr_max self) (pre_gradation_field rnd self v n m) i j"
  shows "(fl_le (hmin self) (hmax self) \<longrightarrow> fl_ge (h ! i ! j) (hmin self))
    \<and> (isfinite (hmax self) \<longrightarrow> fl_le (h ! i ! j) (hmax self))"
proof -
  have h: "h = final_field rnd self v n m"
    and pos: "np_all (\<lambda>h. fl_gt h (Fin 0)) (final_field rnd self v n m)"
    using build_r_field [OF assms(1,2)] by blast+
  have sv: "has_shape v n m" using assms(1) by (rule ReadVelocityModel_shape)
  have sp: "has_shape (pre_gradation_field rnd self v n m) n m"
    using sv by (rule has_shape_pre_gradation_field)
  have sf: "has_shape (final_field rnd self v n m) n m"
    unfolding final_field_def using sv sp by (rule has_shape_cfl_stage)
  then have "i < length (final_field rnd self v n m)"
    "j < length (final_field rnd self v n m ! i)"
    using assms(3,4) by (simp_all add: has_shape_def list_all_length)
  with pos have p: "fl_gt (h ! i ! j) (Fin 0)"
    unfolding h by (rule np_all_nth)
  have "h ! i ! j = pre_gradation_field rnd self v n m ! i ! j"
    using assms(5) cfl_stage_nth [OF sv sp assms(3,4)] cr_old_nth [OF sv sp assms(3,4)]
    by (auto simp: h final_field_def cfl_triggered_def)
  then have c: "h ! i ! j = clamp (raw_size rnd self (v ! i ! j)) (hmin self) (hmax self)"
    using pre_gradation_field_nth [OF sv assms(3,4)] by simp
  show ?thesis
    using p clamp_lower clamp_upper unfolding c by blast
qed

theorem build_field_bounds_witness:
  "ReadVelocityModel test_fs (test_obj\<lparr>wl := Fin 5, hmax := Fin 300, dt := Fin (1 / 1000)\<rparr>)
     = Inr (np_full 2 3 (Fin 2000), 2, 3)
   \<and> returned_field (build test_fs (test_obj\<lparr>wl := Fin 5, hmax := Fin 300, dt := Fin (1 / 1000)\<rparr>))
       = Some (np_full 2 3 (Fin 100))
   \<and> \<not> cfl_triggered exact (np_full 2 3 (Fin 2000)) (Fin (1 / 1000)) (Fin (2 / 10))
         (np_full 2 3 (Fin 100)) 1 2
   \<and> fl_le (Fin 100) (Fin 300) \<and> isfinite (Fin 300)
   \<and> fl_ge (np_full 2 3 (Fin 100) ! 1 ! 2) (Fin 100)
   \<and> fl_le (np_full 2 3 (Fin 100) ! 1 ! 2) (Fin 300)"
proof -
  let ?o = "test_obj\<lparr>wl := Fin 5, hmax := Fin 300, dt := Fin (1 / 1000)\<rparr>"
  let ?v = "np_full 2 3 (Fin 2000)"
  have b: "bbox ?o = [Fin (- 1000), Fin 0, Fin 0, Fin 1000]"
    and g: "\<not> fl_gt (grade ?o) (Fin 0)"
    by (simp_all add: test_obj_def fl_gt_def)
  have rd: "ReadVelocityModel test_fs ?o = Inr (?v, 2, 3)"
    by (rule read_test_any) (simp add: test_obj_def)
  have pre: "pre_gradation_field exact ?o ?v 2 3 = np_full 2 3 (Fin 100)"
    by (simp add: pre_gradation_field_def wavelength_stage_def clamp_stage_eq
        np_map_np_full test_obj_def fl_gt_def clamp_def exact_def)
  have ff: "final_field exact ?o ?v 2 3 = np_full 2 3 (Fin 100)"
    unfolding final_field_def pre
    by (simp add: cfl_stage_def np_where_def cr_old_def dxn_def exact_def
        np_map_def np_map2_def np_full_def fl_gt_def test_obj_def numeral_2_eq_2 numeral_3_eq_3)
  have rf: "returned_field (build test_fs ?o) = Some (np_full 2 3 (Fin 100))"
    using build_returned_field [OF b rd g, unfolded ff]
    by (simp add: fl_gt_def np_all_np_full)
  have c: "dt ?o = Fin (1 / 1000)" "cr_max ?o = Fin (2 / 10)" "hmin ?o = Fin 100"
    "hmax ?o = Fin 300"
    by (simp_all add: test_obj_def)
  have nt: "\<not> cfl_triggered exact ?v (dt ?o) (cr_max ?o) (pre_gradation_field exact ?o ?v 2 3) 1 2"
    unfolding pre c
    by (simp add: cfl_triggered_def cr_old_def np_map_def np_map2_def np_full_def exact_def
        fl_gt_def numeral_2_eq_2 numeral_3_eq_3)
  have "(1::nat) < 2" "(2::nat) < 3" by simp_all
  from build_field_bounds [OF rd rf this nt] show ?thesis
    using rd rf nt unfolding pre c by (simp add: isfinite_def)
qed

section \<open>The CFL stage\<close>

text \<open>
  Claim C3, as stated: when \<open>dt > 0\<close>, every replacement made by the CFL stage strictly
  increases the cell's value. It fails for a negative \<open>cr_max\<close>, which no setter
  rejects: with velocity 2000, \<open>dt = 1\<close>, \<open>cr_max = -1\<close> and a cell of 100 the Courant
  number 20 exceeds \<open>cr_max\<close>, and the cell is replaced by \<open>2000 * 1 / (-1) = -2000\<close>.
  All the numbers involved are whole, so no rounding takes place.
\<close>

theorem cfl_stage_counterexample:
  "fl_gt (Fin 1) (Fin 0)
   \<and> cfl_triggered exact [[Fin 2000]] (Fin 1) (Fin (- 1)) [[Fin 100]] 0 0
   \<and> cfl_stage exact [[Fin 2000]] (Fin 1) (Fin (- 1)) [[Fin 100]] = [[Fin (- 2000)]]
   \<and> \<not> fl_gt (Fin (- 2000)) (Fin 100)"
  by (simp add: cfl_triggered_def cfl_stage_def cr_old_def dxn_def np_where_def np_map_def
      np_map2_def fl_gt_def exact_def)

text \<open>
  Claim C3, amended. The field that \<open>build\<close> returns is the output of the CFL stage.
  When \<open>dt > 0\<close> and \<open>cr_max > 0\<close> are finite, at every cell of finite velocity whose
  value \<open>h\<close> before the stage is finite and strictly positive, and for every monotone
  rounding of the products and quotients that leaves \<open>cr_max\<close> and \<open>h\<close> as they are:

  \<^item> the stage replaces \<open>h\<close> with \<open>velocity * dt / cr_max\<close>, as computed, exactly if the
    computed \<open>velocity * dt / h\<close> exceeds \<open>cr_max\<close>, and leaves the cell unchanged
    otherwise;
  \<^item> a replacement never lowers the cell's value (it may leave it equal);
  \<^item> at a cell left unchanged, the computed \<open>velocity * dt / h\<close> is at most \<open>cr_max\<close>;
  \<^item> at a replaced cell, if the product is finite and the two quotients are rounded
    with a relative error of at most \<open>eps < 1\<close>, the computed \<open>velocity * dt / h\<close>
    after the stage is at most \<open>cr_max * (1 + eps) / (1 - eps)\<close>;
  \<^item> with no rounding at all, a replacement strictly increases the cell's value and
    \<open>velocity * dt / h \<le> cr_max\<close> holds after the stage.
\<close>

theorem cfl_stage_enlarges:
  assumes "is_rounding rnd"
    and "has_shape v n m" and "has_shape a n m" and "i < n" and "j < m"
    and "d = Fin dd" and "0 < dd"
    and "c = Fin cc" and "0 < cc" and "rnd cc = Fin cc"
    and "v ! i ! j = Fin u"
    and "a ! i ! j = Fin h" and "0 < h" and "rnd h = Fin h"
  shows "(\<forall>fs self hf. ReadVelocityModel fs self = Inr (v, n, m)
            \<and> returned_field (build_r rnd fs self) = Some hf
          \<longrightarrow> hf = cfl_stage rnd v (dt self) (cr_max self)
                     (pre_gradation_field rnd self v n m))
     \<and> (cfl_triggered rnd v d c a i j \<longrightarrow>
            cfl_stage rnd v d c a ! i ! j = fl_div rnd (fl_mul rnd (v ! i ! j) d) c
            \<and> fl_ge (cfl_stage rnd v d c a ! i ! j) (a ! i ! j))
     \<and> (\<not> cfl_triggered rnd v d c a i j \<longrightarrow>
            cfl_stage rnd v d c a ! i ! j = a ! i ! j
            \<and> fl_le (fl_div rnd (fl_mul rnd (v ! i ! j) d) (cfl_stage rnd v d c a ! i ! j)) c)
     \<and> (\<forall>eps x y. cfl_triggered rnd v d c a i j \<and> 0 \<le> eps \<and> eps < 1
            \<and> fl_mul rnd (v ! i ! j) d = Fin x \<and> accurate rnd eps (x / cc)
            \<and> cfl_stage rnd v d c a ! i ! j = Fin y \<and> accurate rnd eps (x / y)
          \<longrightarrow> fl_le (fl_div rnd (fl_mul rnd (v ! i ! j) d) (cfl_stage rnd v d c a ! i ! j))
                 (Fin (cc * (1 + eps) / (1 - eps))))
     \<and> (rnd = exact \<longrightarrow>
            (cfl_triggered rnd v d c a i j \<longrightarrow>
               fl_gt (cfl_stage rnd v d c a ! i ! j) (a ! i ! j))
            \<and> fl_le (fl_div rnd (fl_mul rnd (v ! i ! j) d) (cfl_stage rnd v d c a ! i ! j)) c)"
proof -
  define X where "X = rnd (u * dd)"
  have xn: "X \<noteq> NaN" unfolding X_def using assms(1) by (rule is_rounding_not_NaN)
  have m: "fl_mul rnd (v ! i ! j) d = X"
    by (simp add: assms(6,11) X_def)
  have t: "cfl_triggered rnd v d (Fin cc) a i j = fl_gt (fl_div rnd X (Fin h)) (Fin cc)"
    using cr_old_nth [OF assms(2-5), of rnd d] assms(7)
    by (simp add: cfl_triggered_def assms(6,8,11,12) fl_gt_def X_def)
  have s: "cfl_stage rnd v d (Fin cc) a ! i ! j
             = (if fl_gt (fl_div rnd X (Fin h)) (Fin cc) then fl_div rnd X (Fin cc) else Fin h)"
    using cfl_stage_nth [OF assms(2-5), of rnd d "Fin cc"] assms(7)
    by (simp add: assms(6,8,11,12) fl_gt_def X_def)
  note cell = cfl_cell_rounded [OF assms(1) assms(9,10) assms(13,14) xn]
  have 1: "\<forall>fs self hf. ReadVelocityModel fs self = Inr (v, n, m)
            \<and> returned_field (build_r rnd fs self) = Some hf
          \<longrightarrow> hf = cfl_stage rnd v (dt self) (cr_max self)
                     (pre_gradation_field rnd self v n m)"
    using build_r_field(1) by (auto simp: final_field_def)
  have 2: "cfl_triggered rnd v d c a i j \<longrightarrow>
            cfl_stage rnd v d c a ! i ! j = fl_div rnd (fl_mul rnd (v ! i ! j) d) c
            \<and> fl_ge (cfl_stage rnd v d c a ! i ! j) (a ! i ! j)"
    using cell(1) unfolding assms(8) t s m assms(12) by (simp add: fl_ge_def)
  have 3: "\<not> cfl_triggered rnd v d c a i j \<longrightarrow>
            cfl_stage rnd v d c a ! i ! j = a ! i ! j
            \<and> fl_le (fl_div rnd (fl_mul rnd (v ! i ! j) d) (cfl_stage rnd v d c a ! i ! j)) c"
    using cell(2) unfolding assms(8) t s m assms(12) by simp
  have 4: "\<forall>eps x y. cfl_triggered rnd v d c a i j \<and> 0 \<le> eps \<and> eps < 1
            \<and> fl_mul rnd (v ! i ! j) d = Fin x \<and> accurate rnd eps (x / cc)
            \<and> cfl_stage rnd v d c a ! i ! j = Fin y \<and> accurate rnd eps (x / y)
          \<longrightarrow> fl_le (fl_div rnd (fl_mul rnd (v ! i ! j) d) (cfl_stage rnd v d c a ! i ! j))
                 (Fin (cc * (1 + eps) / (1 - eps)))"
  proof (intro allI impI)
    fix eps x y
    assume a: "cfl_triggered rnd v d c a i j \<and> 0 \<le> eps \<and> eps < 1
            \<and> fl_mul rnd (v ! i ! j) d = Fin x \<and> accurate rnd eps (x / cc)
            \<and> cfl_stage rnd v d c a ! i ! j = Fin y \<and> accurate rnd eps (x / y)"
    then have x: "X = Fin x" using m by simp
    from a have tt: "fl_gt (fl_div rnd (Fin x) (Fin h)) (Fin cc)"
      unfolding assms(8) t x by blast
    then have y: "fl_div rnd (Fin x) (Fin cc) = Fin y"
      using a s x unfolding assms(8) by simp
    have "fl_le (fl_div rnd (Fin x) (Fin y)) (Fin (cc * (1 + eps) / (1 - eps)))"
      using assms(1) assms(9,10) assms(13) tt _ _ y
      by (rule cfl_cell_accurate) (use a in simp_all)
    then show "fl_le (fl_div rnd (fl_mul rnd (v ! i ! j) d) (cfl_stage rnd v d c a ! i ! j))
                 (Fin (cc * (1 + eps) / (1 - eps)))"
      using a by (simp only:)
  qed
  have 5: "rnd = exact \<longrightarrow>
            (cfl_triggered rnd v d c a i j \<longrightarrow>
               fl_gt (cfl_stage rnd v d c a ! i ! j) (a ! i ! j))
            \<and> fl_le (fl_div rnd (fl_mul rnd (v ! i ! j) d) (cfl_stage rnd v d c a ! i ! j)) c"
  proof
    assume e: "rnd = exact"
    have p: "0 < dd" "0 < cc" "0 < h" by fact+
    have X: "X = Fin (u * dd)" by (simp add: X_def e exact_def)
    show "(cfl_triggered rnd v d c a i j \<longrightarrow>
               fl_gt (cfl_stage rnd v d c a ! i ! j) (a ! i ! j))
            \<and> fl_le (fl_div rnd (fl_mul rnd (v ! i ! j) d) (cfl_stage rnd v d c a ! i ! j)) c"
    proof (cases "cc < u * dd / h")
      case True
      then have g: "cc * h < u * dd" using p by (simp add: field_simps)
      then have "h < u * dd / cc" using p by (simp add: field_simps)
      moreover have "0 < cc * h" using p by simp
      then have "u * dd \<noteq> 0" using g by linarith
      ultimately show ?thesis
        unfolding assms(8) t s m assms(12) X using True p
        by (auto simp: e exact_def fl_gt_def)
    next
      case False
      then show ?thesis
        unfolding assms(8) t s m assms(12) X using p
        by (auto simp: e exact_def fl_gt_def)
    qed
  qed
  from 1 2 3 4 5 show ?thesis by (intro conjI)
qed

theorem cfl_stage_enlarges_witness:
  "is_rounding to_nearest_integer
   \<and> cfl_triggered to_nearest_integer [[Fin 42, Fin 10]] (Fin 1) (Fin 10) [[Fin 4, Fin 4]] 0 0
   \<and> cfl_stage to_nearest_integer [[Fin 42, Fin 10]] (Fin 1) (Fin 10) [[Fin 4, Fin 4]] ! 0 ! 0
       = Fin 4
   \<and> fl_ge (Fin 4) (Fin 4)
   \<and> accurate to_nearest_integer (1 / 21) (42 / 10)
   \<and> accurate to_nearest_integer (1 / 21) (42 / 4)
   \<and> fl_div to_nearest_integer (Fin 42) (Fin 4) = Fin 11
   \<and> fl_le (Fin 11) (Fin (10 * (1 + 1 / 21) / (1 - 1 / 21)))
   \<and> \<not> cfl_triggered to_nearest_integer [[Fin 42, Fin 10]] (Fin 1) (Fin 10) [[Fin 4, Fin 4]] 0 1
   \<and> cfl_stage to_nearest_integer [[Fin 42, Fin 10]] (Fin 1) (Fin 10) [[Fin 4, Fin 4]] ! 0 ! 1
       = Fin 4"
proof -
  have h: "has_shape [[Fin 42, Fin 10]] 1 2" "has_shape [[Fin 4, Fin 4]] 1 2"
    by (simp_all add: has_shape_def)
  have r: "to_nearest_integer 10 = Fin 10" "to_nearest_integer 4 = Fin 4"
    by (simp_all add: to_nearest_integer_def)
  have t: "cfl_triggered to_nearest_integer [[Fin 42, Fin 10]] (Fin 1) (Fin 10) [[Fin 4, Fin 4]] 0 0"
    "\<not> cfl_triggered to_nearest_integer [[Fin 42, Fin 10]] (Fin 1) (Fin 10) [[Fin 4, Fin 4]] 0 1"
    by (simp_all add: cfl_triggered_def cr_old_def np_map_def np_map2_def fl_gt_def
        to_nearest_integer_def round_def)
  have a: "accurate to_nearest_integer (1 / 21) (42 / 10)"
    "accurate to_nearest_integer (1 / 21) (42 / 4)"
    by (simp_all add: accurate_def to_nearest_integer_def round_def)
  have q: "fl_div to_nearest_integer (Fin 42) (Fin 4) = Fin 11"
    "fl_div to_nearest_integer (Fin 42) (Fin 10) = Fin 4"
    "to_nearest_integer 42 = Fin 42"
    by (simp_all add: to_nearest_integer_def round_def)
  have z: "(0::nat) < 1" "(0::nat) < 2" "(1::nat) < 2" "(0::real) < 1" "(0::real) < 10"
    "(0::real) < 4"
    by simp_all
  show ?thesis
    using cfl_stage_enlarges [OF is_rounding_to_nearest_integer h z(1,2) refl z(4) refl z(5)
        r(1) _ _ z(6) r(2), of 42]
      cfl_stage_enlarges [OF is_rounding_to_nearest_integer h z(1,3) refl z(4) refl z(5)
        r(1) _ _ z(6) r(2), of 10]
      is_rounding_to_nearest_integer t a q
    by (simp add: fl_ge_def)
qed

section \<open>The positivity assertion\<close>

text \<open>
  Claim C5, as stated: \<open>build\<close> fails with the assertion if and only if the field
  contains a non-positive or non-finite value after all stages. It fails for
  \<open>hmin = +infinity\<close>, which the setter accepts (\<open>inf > 0.0\<close>): the field is
  \<open>+infinity\<close> at every cell, \<open>np.all(hh_m > 0.0)\<close> holds, and \<open>build\<close> returns.
\<close>

theorem build_accepts_infinite_field:
  "init_default [Fin (- 1000), Fin 0, Fin 0, Fin 1000] PInf (PyStr ''testing.segy'')
     = Inr (test_obj\<lparr>hmin := PInf\<rparr>)
   \<and> returned_field (build test_fs (test_obj\<lparr>hmin := PInf\<rparr>))
       = Some [[PInf, PInf, PInf], [PInf, PInf, PInf]]
   \<and> raised (build test_fs (test_obj\<lparr>hmin := PInf\<rparr>)) = None
   \<and> \<not> isfinite PInf"
proof -
  let ?o = "test_obj\<lparr>hmin := PInf\<rparr>"
  have b: "bbox ?o = [Fin (- 1000), Fin 0, Fin 0, Fin 1000]"
    and g: "\<not> fl_gt (grade ?o) (Fin 0)"
    by (simp_all add: test_obj_def fl_gt_def)
  have rd: "ReadVelocityModel test_fs ?o = Inr (np_full 2 3 (Fin 2000), 2, 3)"
    by (rule read_test_any) (simp add: test_obj_def)
  have ff: "final_field exact ?o (np_full 2 3 (Fin 2000)) 2 3 = np_full 2 3 PInf"
    by (subst final_field_disabled) (simp_all add: test_obj_def fl_gt_def clamp_def)
  have pos: "np_all (\<lambda>h. fl_gt h (Fin 0)) (final_field exact ?o (np_full 2 3 (Fin 2000)) 2 3)"
    unfolding ff by (rule np_all_np_full) (simp add: fl_gt_def)
  have r: "returned_field (build test_fs ?o) = Some (np_full 2 3 PInf)"
    using build_returned_field [OF b rd g pos] by (simp add: ff)
  then have "raised (build test_fs ?o) = None"
    by (cases "build test_fs ?o") (simp_all add: raised_def returned_field_def)
  moreover have "init_default [Fin (- 1000), Fin 0, Fin 0, Fin 1000] PInf (PyStr ''testing.segy'')
     = Inr ?o"
    by (simp add: init_default_def init_def set_bbox_def set_hmin_def set_segy_def fl_gt_def
        test_obj_def)
  ultimately show ?thesis
    using r by (simp add: np_full_def isfinite_def numeral_2_eq_2 numeral_3_eq_3)
qed

text \<open>
  Claim C5, amended. When \<open>build\<close> completes its stages (the box is not empty, the file
  is read, the gradation stage is off), it fails with an assertion error if and only if
  some cell of the field after all stages is not strictly positive, that is, is NaN or
  at most zero; \<open>+infinity\<close> passes. In that case \<open>build\<close> raises with only the
  velocity model stored: \<open>fh\<close> and \<open>fd\<close> keep their old values, no field is returned
  and nothing is clamped further. Otherwise \<open>build\<close> returns the field as it is,
  unless the interpolator rejects the axes with a ValueError. This holds however the
  products and quotients are rounded.
\<close>

theorem build_assertion_iff:
  assumes "bbox self \<noteq> []" and "ReadVelocityModel fs self = Inr (v, n, m)"
    and "\<not> fl_gt (grade self) (Fin 0)"
  shows "((\<exists>msg. raised (build_r rnd fs self) = Some (AssertionError msg))
           \<longleftrightarrow> np_any (\<lambda>h. h = NaN \<or> fl_le h (Fin 0)) (final_field rnd self v n m))
    \<and> (np_any (\<lambda>h. h = NaN \<or> fl_le h (Fin 0)) (final_field rnd self v n m) \<longrightarrow>
          build_r rnd fs self
            = Raised (AssertionError ''edge_size_function must be strictly positive.'')
                (self\<lparr>vp := Some v, nz := Some n, nx := Some m\<rparr>)
          \<and> returned_field (build_r rnd fs self) = None
          \<and> fh (state_after (build_r rnd fs self)) = fh self
          \<and> fd (state_after (build_r rnd fs self)) = fd self)
    \<and> (\<not> np_any (\<lambda>h. h = NaN \<or> fl_le h (Fin 0)) (final_field rnd self v n m) \<longrightarrow>
          returned_field (build_r rnd fs self) = Some (final_field rnd self v n m)
          \<or> (\<exists>msg. raised (build_r rnd fs self) = Some (ValueError msg)))"
proof -
  obtain w where w: "max_seq (bbox self) = Inr w" using max_seq_Inr assms(1) by blast
  obtain d where d: "min_seq (bbox self) = Inr d" using min_seq_Inr assms(1) by blast
  show ?thesis
    using build_r_unfold [OF w d assms(2), of rnd] assms(3)
    by (simp add: not_np_all_positive [symmetric] raised_def returned_field_def
        state_after_def field_of_def loaded_def make_interpolator_def)
qed

theorem build_assertion_iff_witness:
  "bbox (test_obj\<lparr>hmax := Fin (- 50)\<rparr>) \<noteq> []
   \<and> \<not> fl_gt (grade (test_obj\<lparr>hmax := Fin (- 50)\<rparr>)) (Fin 0)
   \<and> final_field exact (test_obj\<lparr>hmax := Fin (- 50)\<rparr>) (np_full 2 3 (Fin 2000)) 2 3
       = np_full 2 3 (Fin (- 50))
   \<and> raised (build test_fs (test_obj\<lparr>hmax := Fin (- 50)\<rparr>))
       = Some (AssertionError ''edge_size_function must be strictly positive.'')"
proof -
  let ?o = "test_obj\<lparr>hmax := Fin (- 50)\<rparr>"
  have b: "bbox ?o \<noteq> []" and g: "\<not> fl_gt (grade ?o) (Fin 0)"
    by (simp_all add: test_obj_def fl_gt_def)
  have rd: "ReadVelocityModel test_fs ?o = Inr (np_full 2 3 (Fin 2000), 2, 3)"
    by (rule read_test_any) (simp add: test_obj_def)
  have ff: "final_field exact ?o (np_full 2 3 (Fin 2000)) 2 3 = np_full 2 3 (Fin (- 50))"
    by (subst final_field_disabled) (simp_all add: test_obj_def fl_gt_def clamp_def)
  have a: "np_any (\<lambda>h. h = NaN \<or> fl_le h (Fin 0)) (np_full 2 3 (Fin (- 50)))"
    by (simp add: np_any_def np_full_def numeral_2_eq_2 numeral_3_eq_3)
  show ?thesis
    using build_assertion_iff [OF b rd g, of exact] b g ff a by (simp add: raised_def)
qed

section \<open>The distance function\<close>

text \<open>
  Claim C6 says that the distance function \<open>fd\<close> produced by \<open>build\<close> returns a
  negative value strictly inside the bounding box and a positive value strictly outside.
  The method \<open>__drectangle\<close> has that property (\<open>drectangle_sign\<close> above), but the
  closure stored in \<open>fd\<close> asks the receiver for \<open>drectangle\<close>, a name that neither the
  class (which holds \<open>_MeshSizeFunction__drectangle\<close>) nor the instance has. At the
  test configuration \<open>build\<close> returns, and the call of \<open>fd\<close> at the inner point
  \<open>(-500, 500)\<close> raises AttributeError instead of returning a negative number.
\<close>

theorem fd_raises_at_inner_point:
  "raised (build test_fs test_obj) = None
   \<and> fd (state_after (build test_fs test_obj))
       = Some (Drectangle_closure [Fin (- 1000), Fin 0, Fin 0, Fin 1000])
   \<and> call_fd (state_after (build test_fs test_obj)) (Fin (- 500), Fin 500)
       = Inl (AttributeError ''drectangle'')"
proof -
  have ff: "final_field exact test_obj (np_full 2 3 (Fin 2000)) 2 3 = np_full 2 3 (Fin 100)"
    by (subst final_field_disabled) (simp_all add: test_obj_def fl_gt_def clamp_def)
  have b: "bbox test_obj = [Fin (- 1000), Fin 0, Fin 0, Fin 1000]"
    by (simp add: test_obj_def)
  have g: "\<not> fl_gt (grade test_obj) (Fin 0)"
    by (simp add: test_obj_def fl_gt_def)
  have pos: "np_all (\<lambda>h. fl_gt h (Fin 0)) (np_full 2 3 (Fin 100))"
    by (rule np_all_np_full) (simp add: fl_gt_def)
  have "\<exists>s. build test_fs test_obj = Returned s
             \<and> fd s = Some (Drectangle_closure [Fin (- 1000), Fin 0, Fin 0, Fin 1000])"
    using build_unfold [OF max_seq_test [folded b] min_seq_test [folded b] read_test]
    by (simp add: ff g pos b make_interpolator_test)
  then obtain s where s: "build test_fs test_obj = Returned s"
    "fd s = Some (Drectangle_closure [Fin (- 1000), Fin 0, Fin 0, Fin 1000])" by blast
  show ?thesis
    using call_fd_raises [OF s(2)] s by (simp add: raised_def state_after_def)
qed

section \<open>Facts about one pass of the limiter\<close>

lemma length_relax [simp]: "length (relax d h e) = length h"
  by (cases e) (simp add: relax_def)

lemma relax_le: "relax d h e ! x \<le> h ! x"
proof (cases e)
  case (Pair c n)
  show ?thesis
  proof (cases "x = n \<and> n < length h")
    case True
    then show ?thesis by (simp add: relax_def Pair)
  next
    case False
    then have "h[n := min (h ! n) (h ! c + d)] ! x = h ! x"
      by (cases "x = n") (simp_all add: list_update_beyond)
    then show ?thesis by (simp add: relax_def Pair)
  qed
qed

lemma length_foldl_relax [simp]: "length (foldl (relax d) h es) = length h"
  by (induction es arbitrary: h) simp_all

lemma foldl_relax_le: "foldl (relax d) h es ! x \<le> h ! x"
proof (induction es arbitrary: h)
  case Nil
  show ?case by simp
next
  case (Cons e es)
  have "foldl (relax d) (relax d h e) es ! x \<le> relax d h e ! x" by (rule Cons.IH)
  also have "\<dots> \<le> h ! x" by (rule relax_le)
  finally show ?case by simp
qed

lemma foldl_relax_edge:
  "(c, n) \<in> set es \<Longrightarrow> n < length h \<Longrightarrow> foldl (relax d) h es ! n \<le> h ! c + d"
proof (induction es arbitrary: h)
  case Nil
  then show ?case by simp
next
  case (Cons e es)
  show ?case
  proof (cases "e = (c, n)")
    case True
    have "foldl (relax d) (relax d h e) es ! n \<le> relax d h e ! n" by (rule foldl_relax_le)
    also have "\<dots> \<le> h ! c + d" using Cons.prems(2) by (simp add: relax_def True)
    finally show ?thesis by simp
  next
    case False
    with Cons.prems have "(c, n) \<in> set es" by simp
    then have "foldl (relax d) (relax d h e) es ! n \<le> relax d h e ! c + d"
      using Cons.prems(2) by (intro Cons.IH) simp_all
    also have "\<dots> \<le> h ! c + d" using relax_le [of d h e c] by simp
    finally show ?thesis by simp
  qed
qed

lemma foldl_relax_dominates:
  fixes u :: "nat \<Rightarrow> real"
  assumes "\<forall>x<length h. u x \<le> h ! x"
    and "\<forall>(c, n)\<in>set es. c < length h \<and> u n \<le> u c + d"
  shows "\<forall>x<length h. u x \<le> foldl (relax d) h es ! x"
  using assms
proof (induction es arbitrary: h)
  case Nil
  then show ?case by simp
next
  case (Cons e es)
  obtain c n where e: "e = (c, n)" by (cases e)
  from Cons.prems(2) have cn: "c < length h" "u n \<le> u c + d" by (simp_all add: e)
  have "\<forall>x<length (relax d h e). u x \<le> relax d h e ! x"
  proof (intro allI impI)
    fix x assume "x < length (relax d h e)"
    then have x: "x < length h" by simp
    show "u x \<le> relax d h e ! x"
    proof (cases "x = n")
      case True
      have "u n \<le> h ! n" using Cons.prems(1) x True by simp
      moreover have "u n \<le> h ! c + d" using cn Cons.prems(1) by force
      ultimately show ?thesis using x True by (simp add: relax_def e)
    next
      case False
      then show ?thesis using Cons.prems(1) x by (simp add: relax_def e)
    qed
  qed
  moreover have "\<forall>(c, n)\<in>set es. c < length (relax d h e) \<and> u n \<le> u c + d"
    using Cons.prems(2) by auto
  ultimately have "\<forall>x<length (relax d h e). u x \<le> foldl (relax d) (relax d h e) es ! x"
    by (rule Cons.IH)
  then show ?case by simp
qed

lemma iterate_induct:
  assumes "P h" and "\<And>g. P g \<Longrightarrow> P (f g)"
  shows "P (iterate n f h)"
  using assms(1)
  by (induction n arbitrary: h) (auto simp: Let_def assms(2))

lemma iterate_funpow:
  "\<exists>p\<le>n. iterate n f h = (f ^^ p) h \<and> (p = n \<or> f ((f ^^ p) h) = (f ^^ p) h)"
proof (induction n arbitrary: h)
  case 0
  show ?case by simp
next
  case (Suc n)
  show ?case
  proof (cases "f h = h")
    case True
    then have "iterate (Suc n) f h = (f ^^ 0) h \<and> f ((f ^^ 0) h) = (f ^^ 0) h" by simp
    then show ?thesis by blast
  next
    case False
    from Suc.IH [of "f h"] obtain p where
      p: "p \<le> n" "iterate n f (f h) = (f ^^ p) (f h)"
         "p = n \<or> f ((f ^^ p) (f h)) = (f ^^ p) (f h)" by blast
    have "iterate (Suc n) f h = (f ^^ Suc p) h" using False p(2) by (simp add: funpow_swap1)
    moreover have "Suc p = Suc n \<or> f ((f ^^ Suc p) h) = (f ^^ Suc p) h"
      using p(3) by (simp add: funpow_swap1)
    ultimately show ?thesis using p(1) by (metis Suc_le_mono)
  qed
qed

section \<open>Facts about the grid\<close>

lemma set_cells: "set (cells n_z n_x) = {c. fst c < n_z \<and> snd c < n_x}"
  by (auto simp: cells_def)

lemma idx_less: "fst c < n_z \<Longrightarrow> snd c < n_x \<Longrightarrow> idx n_z c < n_z * n_x"
proof -
  assume a: "fst c < n_z" "snd c < n_x"
  then have "fst c + n_z * snd c < n_z + n_z * snd c" by simp
  also have "\<dots> = n_z * Suc (snd c)" by simp
  also have "\<dots> \<le> n_z * n_x" using a(2) by (intro mult_le_mono2) simp
  finally show ?thesis by (simp add: idx_def)
qed

lemma idx_mod: "fst c < n_z \<Longrightarrow> idx n_z c mod n_z = fst c"
  by (simp add: idx_def)

lemma idx_div: "fst c < n_z \<Longrightarrow> idx n_z c div n_z = snd c"
  by (simp add: idx_def)

lemma idx_of_flat:
  assumes "x < n_z * n_x"
  shows "x mod n_z < n_z" "x div n_z < n_x" "idx n_z (x mod n_z, x div n_z) = x"
proof -
  from assms have nz: "0 < n_z" by (cases n_z) simp_all
  then show "x mod n_z < n_z" by simp
  show "x div n_z < n_x" using assms nz by (simp add: less_mult_imp_div_less mult.commute)
  show "idx n_z (x mod n_z, x div n_z) = x" by (simp add: idx_def)
qed

lemma set_neighbours:
  "set (neighbours n_z n_x c) =
     {n. fst n < n_z \<and> snd n < n_x
         \<and> ((fst n + 1 = fst c \<and> snd n = snd c) \<or> (fst n = fst c + 1 \<and> snd n = snd c)
            \<or> (fst n = fst c \<and> snd n + 1 = snd c) \<or> (fst n = fst c \<and> snd n = snd c + 1))}"
  if "fst c < n_z" "snd c < n_x"
  using that by (cases c) (auto simp: neighbours_def)

lemma visit_append: "visit n_z n_x (ps @ qs) = visit n_z n_x ps @ visit n_z n_x qs"
  by (simp add: visit_def)

lemma in_visit_iff:
  "(a, b) \<in> set (visit n_z n_x ps) \<longleftrightarrow>
     a \<in> set ps \<and> (\<exists>n\<in>set (neighbours n_z n_x (a mod n_z, a div n_z)). b = idx n_z n)"
  by (auto simp: visit_def)

lemma set_by_columns: "set (by_columns n_z n_x) = {x. x < n_z * n_x}"
  by (auto simp: by_columns_def)

lemma set_by_rows: "set (by_rows n_z n_x) = {x. x < n_z * n_x}"
proof (intro set_eqI iffI)
  fix x assume "x \<in> set (by_rows n_z n_x)"
  then obtain i j where "i < n_z" "j < n_x" "x = idx n_z (i, j)"
    by (auto simp: by_rows_def)
  then show "x \<in> {x. x < n_z * n_x}"
    using idx_less [of "(i, j)" n_z n_x] by simp
next
  fix x assume "x \<in> {x. x < n_z * n_x}"
  then have x: "x < n_z * n_x" by simp
  from idx_of_flat [OF x] show "x \<in> set (by_rows n_z n_x)"
    by (auto simp: by_rows_def intro!: bexI [of _ "x mod n_z"] image_eqI [of _ _ "x div n_z"])
qed

lemma in_schedule_iff:
  "(a, b) \<in> set (schedule n_z n_x) \<longleftrightarrow>
     (\<exists>c n. fst c < n_z \<and> snd c < n_x \<and> n \<in> set (neighbours n_z n_x c)
            \<and> a = idx n_z c \<and> b = idx n_z n)"
proof
  assume "(a, b) \<in> set (schedule n_z n_x)"
  then have a: "a < n_z * n_x"
    and "\<exists>n\<in>set (neighbours n_z n_x (a mod n_z, a div n_z)). b = idx n_z n"
    by (auto simp: schedule_def in_visit_iff set_by_rows set_by_columns)
  then obtain n where n: "n \<in> set (neighbours n_z n_x (a mod n_z, a div n_z))" "b = idx n_z n"
    by blast
  from idx_of_flat [OF a] n
  show "\<exists>c n. fst c < n_z \<and> snd c < n_x \<and> n \<in> set (neighbours n_z n_x c)
            \<and> a = idx n_z c \<and> b = idx n_z n"
    by (intro exI [of _ "(a mod n_z, a div n_z)"] exI [of _ n]) simp
next
  assume "\<exists>c n. fst c < n_z \<and> snd c < n_x \<and> n \<in> set (neighbours n_z n_x c)
            \<and> a = idx n_z c \<and> b = idx n_z n"
  then obtain c n where cn: "fst c < n_z" "snd c < n_x" "n \<in> set (neighbours n_z n_x c)"
    "a = idx n_z c" "b = idx n_z n"
    by blast
  have "a < n_z * n_x" unfolding cn(4) using cn(1,2) by (rule idx_less)
  moreover have "(a mod n_z, a div n_z) = c"
    using cn(1) by (simp add: cn(4) idx_mod idx_div)
  ultimately show "(a, b) \<in> set (schedule n_z n_x)"
    using cn(3,5) by (auto simp: schedule_def in_visit_iff set_by_columns)
qed


lemma schedule_cases:
  assumes "(a, b) \<in> set (schedule n_z n_x)"
  obtains c n where "a = idx n_z c" "b = idx n_z n" "fst c < n_z" "snd c < n_x"
    "fst n < n_z" "snd n < n_x"
    "(fst n + 1 = fst c \<and> snd n = snd c) \<or> (fst n = fst c + 1 \<and> snd n = snd c)
            \<or> (fst n = fst c \<and> snd n + 1 = snd c) \<or> (fst n = fst c \<and> snd n = snd c + 1)"
proof -
  from assms obtain c n where cn: "a = idx n_z c" "b = idx n_z n" "fst c < n_z" "snd c < n_x"
    "n \<in> set (neighbours n_z n_x c)"
    unfolding in_schedule_iff by blast
  from cn(5) have "fst n < n_z \<and> snd n < n_x
         \<and> ((fst n + 1 = fst c \<and> snd n = snd c) \<or> (fst n = fst c + 1 \<and> snd n = snd c)
            \<or> (fst n = fst c \<and> snd n + 1 = snd c) \<or> (fst n = fst c \<and> snd n = snd c + 1))"
    unfolding set_neighbours [OF cn(3,4)] by simp
  with cn that show ?thesis by blast
qed

section \<open>Facts about repeated passes\<close>

lemma length_sweep [simp]: "length (sweep n_z n_x d h) = length h"
  by (simp add: sweep_def)

lemma sweep_le: "sweep n_z n_x d h ! x \<le> h ! x"
  by (simp add: sweep_def foldl_relax_le)

lemma length_funpow_sweep [simp]: "length ((sweep n_z n_x d ^^ p) h) = length h"
  by (induction p) simp_all

lemma funpow_sweep_le: "(sweep n_z n_x d ^^ p) h ! x \<le> h ! x"
proof (induction p)
  case 0
  show ?case by simp
next
  case (Suc p)
  have "(sweep n_z n_x d ^^ Suc p) h ! x \<le> (sweep n_z n_x d ^^ p) h ! x"
    by (simp add: sweep_le)
  with Suc show ?case by linarith
qed


lemma sweep_dominates:
  fixes u :: "nat \<Rightarrow> real"
  assumes "length h = n_z * n_x" and "\<forall>x<n_z * n_x. u x \<le> h ! x"
    and "\<forall>(a, b)\<in>set (schedule n_z n_x). u b \<le> u a + d"
  shows "\<forall>x<n_z * n_x. u x \<le> sweep n_z n_x d h ! x"
proof -
  have "\<forall>(a, b)\<in>set (schedule n_z n_x). a < length h \<and> u b \<le> u a + d"
  proof (clarify, intro conjI)
    fix a b assume e: "(a, b) \<in> set (schedule n_z n_x)"
    then show "a < length h"
      unfolding assms(1) by (elim schedule_cases) (simp add: idx_less)
    show "u b \<le> u a + d" using assms(3) e by blast
  qed
  with assms(1,2) have "\<forall>x<length h. u x \<le> foldl (relax d) h (schedule n_z n_x) ! x"
    by (intro foldl_relax_dominates) simp_all
  then show ?thesis by (simp add: sweep_def assms(1))
qed

lemma funpow_sweep_dominates:
  fixes u :: "nat \<Rightarrow> real"
  assumes "length h = n_z * n_x" and "\<forall>x<n_z * n_x. u x \<le> h ! x"
    and "\<forall>(a, b)\<in>set (schedule n_z n_x). u b \<le> u a + d"
  shows "\<forall>x<n_z * n_x. u x \<le> (sweep n_z n_x d ^^ p) h ! x"
proof (induction p)
  case 0
  show ?case using assms(2) by simp
next
  case (Suc p)
  have "length ((sweep n_z n_x d ^^ p) h) = n_z * n_x" using assms(1) by simp
  from sweep_dominates [OF this Suc assms(3)] show ?case by simp
qed

lemma manhattan_self [simp]: "manhattan c c = 0"
  by (simp add: manhattan_def)

lemma manhattan_0: "manhattan c c' = 0 \<Longrightarrow> c = c'"
  by (cases c; cases c') (simp add: manhattan_def)

section \<open>What one pass reaches\<close>

lemma upt_split: "i \<le> j \<Longrightarrow> j \<le> k \<Longrightarrow> [i..<k] = [i..<j] @ [j..<k]"
  using upt_add_eq_append [of i j "k - j"] by simp

lemma visit_edge:
  assumes "idx n_z c \<in> set ps" and "fst c < n_z" "snd c < n_x" and "fst n < n_z" "snd n < n_x"
    and "(fst n + 1 = fst c \<and> snd n = snd c) \<or> (fst n = fst c + 1 \<and> snd n = snd c)
            \<or> (fst n = fst c \<and> snd n + 1 = snd c) \<or> (fst n = fst c \<and> snd n = snd c + 1)"
  shows "(idx n_z c, idx n_z n) \<in> set (visit n_z n_x ps)"
proof -
  have "n \<in> set (neighbours n_z n_x c)"
    unfolding set_neighbours [OF assms(2,3)] using assms(4,5,6) by simp
  moreover have "(idx n_z c mod n_z, idx n_z c div n_z) = c"
    using assms(2) by (simp add: idx_mod idx_div)
  ultimately show ?thesis
    unfolding in_visit_iff using assms(1) by auto
qed

lemma foldl_visit_step:
  assumes "(a, b) \<in> set (visit n_z n_x qs)" and "b < length g"
  shows "foldl (relax d) g (visit n_z n_x (ps @ qs)) ! b
           \<le> foldl (relax d) g (visit n_z n_x ps) ! a + d"
  using assms by (simp add: visit_append foldl_relax_edge)

text \<open>When the forward sweep over the columns arrives at a cell, the cell is within the
  cone of every cell above it and to its left.\<close>

lemma forward_reach:
  assumes len: "length g = n_z * n_x" and b: "fst b < n_z" "snd b < n_x"
  shows "manhattan c b = k \<Longrightarrow> fst c < n_z \<Longrightarrow> snd c < n_x \<Longrightarrow> fst b \<le> fst c
         \<Longrightarrow> snd b \<le> snd c
         \<Longrightarrow> foldl (relax d) g (visit n_z n_x [0..<idx n_z c]) ! idx n_z c
               \<le> g ! idx n_z b + d * real (manhattan c b)"
proof (induction k arbitrary: c)
  case 0
  then have "c = b" by (simp add: manhattan_0)
  then show ?case by (simp add: foldl_relax_le)
next
  case (Suc k)
  define c' where "c' = (if fst b < fst c then (fst c - 1, snd c) else (fst c, snd c - 1))"
  have ne: "fst b < fst c \<or> snd b < snd c"
    using Suc.prems by (auto simp: manhattan_def)
  have c': "fst c' < n_z" "snd c' < n_x" "fst b \<le> fst c'" "snd b \<le> snd c'"
    using Suc.prems ne by (auto simp: c'_def)
  have m: "manhattan c' b = k" "manhattan c b = Suc (manhattan c' b)"
    using Suc.prems ne by (auto simp: c'_def manhattan_def)
  have adj: "(fst c + 1 = fst c' \<and> snd c = snd c') \<or> (fst c = fst c' + 1 \<and> snd c = snd c')
            \<or> (fst c = fst c' \<and> snd c + 1 = snd c') \<or> (fst c = fst c' \<and> snd c = snd c' + 1)"
    using ne Suc.prems by (auto simp: c'_def)
  have lt: "idx n_z c' < idx n_z c"
    using ne Suc.prems by (auto simp: c'_def idx_def)
  have x: "idx n_z c < length g"
    unfolding len using Suc.prems(2,3) by (rule idx_less)
  have e: "(idx n_z c', idx n_z c) \<in> set (visit n_z n_x [idx n_z c'..<idx n_z c])"
    using lt c'(1,2) Suc.prems(2,3) adj by (intro visit_edge) simp_all
  have "[0..<idx n_z c] = [0..<idx n_z c'] @ [idx n_z c'..<idx n_z c]"
    using lt by (intro upt_split) simp_all
  then have "foldl (relax d) g (visit n_z n_x [0..<idx n_z c]) ! idx n_z c
               \<le> foldl (relax d) g (visit n_z n_x [0..<idx n_z c']) ! idx n_z c' + d"
    using foldl_visit_step [OF e x, of d "[0..<idx n_z c']"] by simp
  also have "foldl (relax d) g (visit n_z n_x [0..<idx n_z c']) ! idx n_z c'
               \<le> g ! idx n_z b + d * real (manhattan c' b)"
    using m(1) c' by (rule Suc.IH)
  finally show ?case by (simp add: m(2) algebra_simps)
qed

text \<open>When the backward sweep over the columns arrives at a cell, the cell is within the
  cone of every cell below it and to its right.\<close>

lemma backward_reach:
  assumes len: "length g = n_z * n_x" and b: "fst b < n_z" "snd b < n_x"
  shows "manhattan c b = k \<Longrightarrow> fst c < n_z \<Longrightarrow> snd c < n_x \<Longrightarrow> fst c \<le> fst b
         \<Longrightarrow> snd c \<le> snd b
         \<Longrightarrow> foldl (relax d) g (visit n_z n_x (rev [Suc (idx n_z c)..<n_z * n_x])) ! idx n_z c
               \<le> g ! idx n_z b + d * real (manhattan c b)"
proof (induction k arbitrary: c)
  case 0
  then have "c = b" by (simp add: manhattan_0)
  then show ?case by (simp add: foldl_relax_le)
next
  case (Suc k)
  define c' where "c' = (if fst c < fst b then (fst c + 1, snd c) else (fst c, snd c + 1))"
  have ne: "fst c < fst b \<or> snd c < snd b"
    using Suc.prems by (auto simp: manhattan_def)
  have c': "fst c' < n_z" "snd c' < n_x" "fst c' \<le> fst b" "snd c' \<le> snd b"
    using Suc.prems ne b by (auto simp: c'_def)
  have m: "manhattan c' b = k" "manhattan c b = Suc (manhattan c' b)"
    using Suc.prems ne by (auto simp: c'_def manhattan_def)
  have adj: "(fst c + 1 = fst c' \<and> snd c = snd c') \<or> (fst c = fst c' + 1 \<and> snd c = snd c')
            \<or> (fst c = fst c' \<and> snd c + 1 = snd c') \<or> (fst c = fst c' \<and> snd c = snd c' + 1)"
    using ne Suc.prems by (auto simp: c'_def)
  have lt: "idx n_z c < idx n_z c'"
    using ne Suc.prems by (auto simp: c'_def idx_def)
  have x: "idx n_z c < length g"
    unfolding len using Suc.prems(2,3) by (rule idx_less)
  have x': "idx n_z c' < n_z * n_x"
    using c'(1,2) by (rule idx_less)
  have e: "(idx n_z c', idx n_z c)
             \<in> set (visit n_z n_x (rev [Suc (idx n_z c)..<Suc (idx n_z c')]))"
    using lt c'(1,2) Suc.prems(2,3) adj by (intro visit_edge) simp_all
  have "[Suc (idx n_z c)..<n_z * n_x]
          = [Suc (idx n_z c)..<Suc (idx n_z c')] @ [Suc (idx n_z c')..<n_z * n_x]"
    using lt x' by (intro upt_split) simp_all
  then have "rev [Suc (idx n_z c)..<n_z * n_x]
          = rev [Suc (idx n_z c')..<n_z * n_x] @ rev [Suc (idx n_z c)..<Suc (idx n_z c')]"
    by (simp only: rev_append)
  then have "foldl (relax d) g (visit n_z n_x (rev [Suc (idx n_z c)..<n_z * n_x])) ! idx n_z c
               \<le> foldl (relax d) g (visit n_z n_x (rev [Suc (idx n_z c')..<n_z * n_x]))
                   ! idx n_z c' + d"
    using foldl_visit_step [OF e x, of d "rev [Suc (idx n_z c')..<n_z * n_x]"] by simp
  also have "foldl (relax d) g (visit n_z n_x (rev [Suc (idx n_z c')..<n_z * n_x])) ! idx n_z c'
               \<le> g ! idx n_z b + d * real (manhattan c' b)"
    using m(1) c' by (rule Suc.IH)
  finally show ?case by (simp add: m(2) algebra_simps)
qed

lemma forward_full:
  assumes "x < n"
  shows "foldl (relax d) g (visit n_z n_x [0..<n]) ! x
           \<le> foldl (relax d) g (visit n_z n_x [0..<x]) ! x"
proof -
  have "[0..<n] = [0..<x] @ [x..<n]" using assms by (intro upt_split) simp_all
  then show ?thesis by (simp add: visit_append foldl_relax_le)
qed

lemma backward_full:
  assumes "x < n"
  shows "foldl (relax d) g (visit n_z n_x (rev [0..<n])) ! x
           \<le> foldl (relax d) g (visit n_z n_x (rev [Suc x..<n])) ! x"
proof -
  have "[0..<n] = [0..<Suc x] @ [Suc x..<n]" using assms by (intro upt_split) simp_all
  then have "rev [0..<n] = rev [Suc x..<n] @ rev [0..<Suc x]" by (simp only: rev_append)
  then show ?thesis by (simp add: visit_append foldl_relax_le)
qed

text \<open>After one pass every cell is within the cone of every other cell: the forward
  sweep carries the bound to the corner below and to the right of both cells, and the
  backward sweep carries it from there.\<close>

lemma sweep_reach:
  assumes len: "length h = n_z * n_x" and a: "fst a < n_z" "snd a < n_x"
    and b: "fst b < n_z" "snd b < n_x"
  shows "sweep n_z n_x d h ! idx n_z a \<le> h ! idx n_z b + d * real (manhattan a b)"
proof -
  define g0 where "g0 = foldl (relax d) h
     (visit n_z n_x (by_rows n_z n_x) @ visit n_z n_x (rev (by_rows n_z n_x)))"
  define g1 where "g1 = foldl (relax d) g0 (visit n_z n_x [0..<n_z * n_x])"
  have sw: "sweep n_z n_x d h = foldl (relax d) g1 (visit n_z n_x (rev [0..<n_z * n_x]))"
    by (simp add: sweep_def schedule_def by_columns_def g0_def g1_def)
  have l0: "length g0 = n_z * n_x" and l1: "length g1 = n_z * n_x"
    by (simp_all add: g0_def g1_def len)
  define k where "k = (max (fst a) (fst b), max (snd a) (snd b))"
  have k: "fst k < n_z" "snd k < n_x" "fst b \<le> fst k" "snd b \<le> snd k"
    "fst a \<le> fst k" "snd a \<le> snd k"
    using a b by (simp_all add: k_def)
  have m: "manhattan a b = manhattan a k + manhattan k b"
    by (auto simp: manhattan_def k_def max_def)
  have xa: "idx n_z a < n_z * n_x" using a by (rule idx_less)
  have xk: "idx n_z k < n_z * n_x" using k(1,2) by (rule idx_less)
  have "sweep n_z n_x d h ! idx n_z a
          \<le> foldl (relax d) g1 (visit n_z n_x (rev [Suc (idx n_z a)..<n_z * n_x])) ! idx n_z a"
    unfolding sw using xa by (rule backward_full)
  also have "\<dots> \<le> g1 ! idx n_z k + d * real (manhattan a k)"
    using l1 k(1,2) refl a k(5,6) by (rule backward_reach)
  also have "g1 ! idx n_z k \<le> foldl (relax d) g0 (visit n_z n_x [0..<idx n_z k]) ! idx n_z k"
    unfolding g1_def using xk by (rule forward_full)
  also have "\<dots> \<le> g0 ! idx n_z b + d * real (manhattan k b)"
    using l0 b refl k(1,2) k(3,4) by (rule forward_reach)
  also have "g0 ! idx n_z b \<le> h ! idx n_z b"
    unfolding g0_def by (rule foldl_relax_le)
  finally show ?thesis by (simp add: m algebra_simps)
qed

lemma funpow_sweep_reach:
  assumes "length h = n_z * n_x" and "fst c' < n_z" "snd c' < n_x"
    and "fst c < n_z" "snd c < n_x" and "1 \<le> p"
  shows "(sweep n_z n_x d ^^ p) h ! idx n_z c \<le> h ! idx n_z c' + d * real (manhattan c c')"
proof -
  from assms(6) obtain q where p: "p = Suc q" by (cases p) simp_all
  have "length ((sweep n_z n_x d ^^ q) h) = n_z * n_x" using assms(1) by simp
  from sweep_reach [OF this assms(4,5) assms(2,3), of d]
  have "(sweep n_z n_x d ^^ p) h ! idx n_z c
          \<le> (sweep n_z n_x d ^^ q) h ! idx n_z c' + d * real (manhattan c c')"
    by (simp add: p)
  also have "(sweep n_z n_x d ^^ q) h ! idx n_z c' \<le> h ! idx n_z c'"
    by (rule funpow_sweep_le)
  finally show ?thesis by simp
qed

section \<open>The envelope is the limit\<close>

lemma cells_nonempty: "0 < n_z \<Longrightarrow> 0 < n_x \<Longrightarrow> set (cells n_z n_x) \<noteq> {}"
  unfolding set_cells by (auto intro: exI [of _ "(0, 0)"])

lemma envelope_le:
  assumes "fst c' < n_z" "snd c' < n_x"
  shows "envelope n_z n_x d h c \<le> h ! idx n_z c' + d * real (manhattan c c')"
proof -
  have "c' \<in> set (cells n_z n_x)" using assms by (simp add: set_cells)
  then show ?thesis
    unfolding envelope_def by (intro Min_le) (simp_all del: set_concat)
qed

lemma envelope_attained:
  assumes "fst c < n_z" "snd c < n_x"
  obtains c' where "fst c' < n_z" "snd c' < n_x"
    "envelope n_z n_x d h c = h ! idx n_z c' + d * real (manhattan c c')"
proof -
  have ne: "set (cells n_z n_x) \<noteq> {}"
    using assms by (intro cells_nonempty) auto
  have "envelope n_z n_x d h c
          \<in> (\<lambda>c'. h ! idx n_z c' + d * real (manhattan c c')) ` set (cells n_z n_x)"
    unfolding envelope_def using ne by (intro Min_in) simp_all
  then show ?thesis using that by (auto simp: set_cells)
qed

lemma envelope_ge:
  assumes "fst c < n_z" "snd c < n_x"
    and "\<And>c'. fst c' < n_z \<Longrightarrow> snd c' < n_x \<Longrightarrow> v \<le> h ! idx n_z c' + d * real (manhattan c c')"
  shows "v \<le> envelope n_z n_x d h c"
proof -
  from envelope_attained [OF assms(1,2)] obtain c' where
    "fst c' < n_z" "snd c' < n_x"
    "envelope n_z n_x d h c = h ! idx n_z c' + d * real (manhattan c c')" .
  then show ?thesis using assms(3) by simp
qed

lemma envelope_below: "fst c < n_z \<Longrightarrow> snd c < n_x \<Longrightarrow> envelope n_z n_x d h c \<le> h ! idx n_z c"
  using envelope_le [of c n_z n_x d h c] by simp

lemma manhattan_neighbour:
  assumes "(fst n + 1 = fst c \<and> snd n = snd c) \<or> (fst n = fst c + 1 \<and> snd n = snd c)
            \<or> (fst n = fst c \<and> snd n + 1 = snd c) \<or> (fst n = fst c \<and> snd n = snd c + 1)"
  shows "manhattan n c' \<le> manhattan c c' + 1"
  using assms by (auto simp: manhattan_def)

lemma envelope_graded:
  assumes "0 \<le> d" and "(a, b) \<in> set (schedule n_z n_x)"
  shows "envelope n_z n_x d h (b mod n_z, b div n_z)
           \<le> envelope n_z n_x d h (a mod n_z, a div n_z) + d"
proof -
  from assms(2) obtain c n where cn: "a = idx n_z c" "b = idx n_z n" "fst c < n_z" "snd c < n_x"
    "fst n < n_z" "snd n < n_x"
    "(fst n + 1 = fst c \<and> snd n = snd c) \<or> (fst n = fst c + 1 \<and> snd n = snd c)
            \<or> (fst n = fst c \<and> snd n + 1 = snd c) \<or> (fst n = fst c \<and> snd n = snd c + 1)"
    by (rule schedule_cases)
  have ca: "(a mod n_z, a div n_z) = c" and nb: "(b mod n_z, b div n_z) = n"
    using cn by (simp_all add: idx_mod idx_div)
  from envelope_attained [OF cn(3,4)] obtain c' where
    c': "fst c' < n_z" "snd c' < n_x"
    "envelope n_z n_x d h c = h ! idx n_z c' + d * real (manhattan c c')" .
  have "envelope n_z n_x d h n \<le> h ! idx n_z c' + d * real (manhattan n c')"
    using c'(1,2) by (rule envelope_le)
  also have "\<dots> \<le> h ! idx n_z c' + d * real (manhattan c c' + 1)"
    using manhattan_neighbour [OF cn(7), of c'] assms(1) by (simp add: mult_left_mono)
  also have "\<dots> = envelope n_z n_x d h c + d"
    by (simp add: c'(3) algebra_simps)
  finally show ?thesis by (simp add: ca nb)
qed

lemma funpow_sweep_envelope:
  assumes "length h = n_z * n_x" and "0 \<le> d" and "1 \<le> p"
    and "x < n_z * n_x"
  shows "(sweep n_z n_x d ^^ p) h ! x = envelope n_z n_x d h (x mod n_z, x div n_z)"
proof (rule antisym)
  let ?c = "(x mod n_z, x div n_z)"
  have c: "fst ?c < n_z" "snd ?c < n_x" "idx n_z ?c = x"
    using idx_of_flat [OF assms(4)] by simp_all
  show "(sweep n_z n_x d ^^ p) h ! x \<le> envelope n_z n_x d h ?c"
  proof (rule envelope_ge [OF c(1,2)])
    fix c' assume c': "fst c' < n_z" "snd c' < n_x"
    from funpow_sweep_reach [OF assms(1) c' c(1,2) assms(3), of d]
    show "(sweep n_z n_x d ^^ p) h ! x \<le> h ! idx n_z c' + d * real (manhattan ?c c')"
      by (simp add: c(3))
  qed
  have "\<forall>y<n_z * n_x. envelope n_z n_x d h (y mod n_z, y div n_z) \<le> h ! y"
  proof (intro allI impI)
    fix y assume "y < n_z * n_x"
    from idx_of_flat [OF this] envelope_below [of "(y mod n_z, y div n_z)" n_z n_x d h]
    show "envelope n_z n_x d h (y mod n_z, y div n_z) \<le> h ! y" by simp
  qed
  moreover have "\<forall>(a, b)\<in>set (schedule n_z n_x).
      envelope n_z n_x d h (b mod n_z, b div n_z)
        \<le> envelope n_z n_x d h (a mod n_z, a div n_z) + d"
    using envelope_graded [OF assms(2)] by blast
  ultimately have "\<forall>y<n_z * n_x. envelope n_z n_x d h (y mod n_z, y div n_z)
                    \<le> (sweep n_z n_x d ^^ p) h ! y"
    by (rule funpow_sweep_dominates [OF assms(1)])
  then show "envelope n_z n_x d h ?c \<le> (sweep n_z n_x d ^^ p) h ! x"
    using assms(4) by blast
qed

lemma funpow_sweep_fixed:
  assumes "length h = n_z * n_x" and "0 \<le> d" and "1 \<le> p"
  shows "sweep n_z n_x d ((sweep n_z n_x d ^^ p) h) = (sweep n_z n_x d ^^ p) h"
proof (rule nth_equalityI)
  show "length (sweep n_z n_x d ((sweep n_z n_x d ^^ p) h)) = length ((sweep n_z n_x d ^^ p) h)"
    by simp
  fix x assume "x < length (sweep n_z n_x d ((sweep n_z n_x d ^^ p) h))"
  then have x: "x < n_z * n_x" using assms(1) by simp
  have "(sweep n_z n_x d ^^ Suc p) h ! x = envelope n_z n_x d h (x mod n_z, x div n_z)"
    using assms by (intro funpow_sweep_envelope x) simp_all
  moreover have "(sweep n_z n_x d ^^ p) h ! x = envelope n_z n_x d h (x mod n_z, x div n_z)"
    using assms by (intro funpow_sweep_envelope x) simp_all
  ultimately show "sweep n_z n_x d ((sweep n_z n_x d ^^ p) h) ! x = (sweep n_z n_x d ^^ p) h ! x"
    by simp
qed

lemma funpow_fixed: "f g = g \<Longrightarrow> (f ^^ q) g = g"
  by (induction q) simp_all

text \<open>With at least one pass allowed, the result of the iteration is a fixed point of
  the sweep and equals the envelope.\<close>

lemma iterate_sweep_converged:
  assumes "length h = n_z * n_x" and "0 \<le> d" and "1 \<le> n"
  shows "sweep n_z n_x d (iterate n (sweep n_z n_x d) h) = iterate n (sweep n_z n_x d) h"
proof -
  from iterate_funpow [of n "sweep n_z n_x d" h] obtain p where
    p: "iterate n (sweep n_z n_x d) h = (sweep n_z n_x d ^^ p) h"
       "p = n \<or> sweep n_z n_x d ((sweep n_z n_x d ^^ p) h) = (sweep n_z n_x d ^^ p) h"
    by blast
  from p(2) show ?thesis
  proof
    assume "p = n"
    then show ?thesis using funpow_sweep_fixed [OF assms] p(1) by simp
  next
    assume "sweep n_z n_x d ((sweep n_z n_x d ^^ p) h) = (sweep n_z n_x d ^^ p) h"
    then show ?thesis by (simp add: p(1))
  qed
qed

lemma iterate_sweep_envelope:
  assumes "length h = n_z * n_x" and "0 \<le> d" and "1 \<le> n"
    and "x < n_z * n_x"
  shows "iterate n (sweep n_z n_x d) h ! x = envelope n_z n_x d h (x mod n_z, x div n_z)"
proof -
  let ?r = "iterate n (sweep n_z n_x d) h"
  from iterate_funpow [of n "sweep n_z n_x d" h] obtain p where
    p: "?r = (sweep n_z n_x d ^^ p) h" by blast
  have "(sweep n_z n_x d ^^ n) ?r = ?r"
    using iterate_sweep_converged [OF assms(1-3)] by (rule funpow_fixed)
  then have "?r = (sweep n_z n_x d ^^ (n + p)) h"
    by (simp add: funpow_add p)
  moreover have "(sweep n_z n_x d ^^ (n + p)) h ! x
                   = envelope n_z n_x d h (x mod n_z, x div n_z)"
    using assms by (intro funpow_sweep_envelope) simp_all
  ultimately show ?thesis by simp
qed

section \<open>Facts about the wrapper hj\<close>

lemma shape_of: "has_shape a n_z n_x \<Longrightarrow> 0 < n_z \<Longrightarrow> shape a = (n_z, n_x)"
  by (cases a) (auto simp: shape_def has_shape_def)

lemma length_concat_uniform:
  "\<forall>j<n. length (f j) = m \<Longrightarrow> length (concat (map f [0..<n])) = m * n"
  by (induction n) simp_all


lemma length_flatten_F:
  "has_shape a n_z n_x \<Longrightarrow> 0 < n_z \<Longrightarrow> length (flatten_F a) = n_z * n_x"
  by (simp add: flatten_F_def shape_of length_concat_uniform)


lemma reshape_F_nth:
  "i < n_z \<Longrightarrow> j < n_x \<Longrightarrow> reshape_F xs (n_z, n_x) ! i ! j = xs ! (i + n_z * j)"
  by (simp add: reshape_F_def)




lemma hj_unfold:
  "has_shape h n_z n_x \<Longrightarrow> 0 < n_z \<Longrightarrow>
   hj h elen g imax
     = reshape_F (iterate imax (sweep n_z n_x (g * elen)) (flatten_F h)) (n_z, n_x)"
  by (simp add: hj_def shape_of limgrad_def)

lemma hj_nth:
  "has_shape h n_z n_x \<Longrightarrow> i < n_z \<Longrightarrow> j < n_x \<Longrightarrow>
   hj h elen g imax ! i ! j
     = iterate imax (sweep n_z n_x (g * elen)) (flatten_F h) ! idx n_z (i, j)"
  by (simp add: hj_unfold reshape_F_nth idx_def)


lemma length_iterate_sweep [simp]: "length (iterate n (sweep n_z n_x d) h) = length h"
  by (rule iterate_induct [where P = "\<lambda>g. length g = length h"]) simp_all










lemma hj_envelope:
  assumes "has_shape h n_z n_x" and "0 \<le> g * elen" and "1 \<le> imax"
    and "i < n_z" and "j < n_x"
  shows "hj h elen g imax ! i ! j = envelope n_z n_x (g * elen) (flatten_F h) (i, j)"
proof -
  have nz: "0 < n_z" using assms(4) by simp
  from iterate_sweep_envelope [OF length_flatten_F [OF assms(1) nz] assms(2,3),
      of "idx n_z (i, j)"] idx_less [of "(i, j)" n_z n_x] assms(4,5)
  show ?thesis
    by (simp add: hj_nth [OF assms(1,4,5)] idx_mod idx_div)
qed

section \<open>The gradient limiter's result\<close>




end
